theory Spec2Isabelle
  imports Complex_Main "HOL-Library.Sublist" "HOL-Library.Multiset"
begin

section \<open>Strings\<close>

text \<open>
  JavaScript strings are modelled as \<open>string\<close>. \<open>String.prototype.includes\<close>, here
  \<open>includes_str\<close>, is case-sensitive containment of a contiguous substring; the empty
  pattern is contained in every string.
\<close>

fun startsWith :: "string \<Rightarrow> string \<Rightarrow> bool" where
  "startsWith s [] = True"
| "startsWith [] (p # ps) = False"
| "startsWith (c # cs) (p # ps) = (c = p \<and> startsWith cs ps)"

fun includes_str :: "string \<Rightarrow> string \<Rightarrow> bool" where
  "includes_str [] p = (p = [])"
| "includes_str (c # cs) p = (startsWith (c # cs) p \<or> includes_str cs p)"

text \<open>
  \<open>x || d\<close> on an optional string: \<open>undefined\<close> and the empty string are falsy.
\<close>

definition orElse :: "string option \<Rightarrow> string \<Rightarrow> string" where
  "orElse x d = (case x of None \<Rightarrow> d | Some s \<Rightarrow> if s = [] then d else s)"

text \<open>\<open>xs[0]\<close>: \<open>undefined\<close> on the empty array.\<close>

definition first :: "'a list \<Rightarrow> 'a option" where
  "first xs = (case xs of [] \<Rightarrow> None | x # _ \<Rightarrow> Some x)"

text \<open>\<open>Array.prototype.join\<close> on an array of strings.\<close>

fun join :: "string \<Rightarrow> string list \<Rightarrow> string" where
  "join sep [] = []"
| "join sep [x] = x"
| "join sep (x # y # ys) = x @ sep @ join sep (y # ys)"

section \<open>Failure classifier (\<open>TestUtils.categorizeError\<close>)\<close>

definition categorizeError :: "string \<Rightarrow> string" where
  "categorizeError message =
     (if includes_str message ''No node found'' \<or> includes_str message ''not visible'' then
        ''ElementNotFound''
      else if includes_str message ''Timeout'' \<or> includes_str message ''timed out'' then
        ''Timeout/DelayedElement''
      else if includes_str message ''selector'' \<or> includes_str message ''locator'' then
        ''SelectorChanged''
      else if includes_str message ''expect('' \<or> includes_str message ''assertion failed'' then
        ''AssertionFailure''
      else if includes_str message ''Network'' \<or> includes_str message ''fetch failed''
              \<or> includes_str message ''status='' then
        ''NetworkError''
      else if includes_str message ''javascript error'' \<or> includes_str message ''undefined is not''
              \<or> includes_str message ''null'' then
        ''JavaScriptError''
      else if includes_str message ''navigation'' \<or> includes_str message ''page.goto'' then
        ''NavigationError''
      else if includes_str message ''element is not clickable'' \<or> includes_str message ''intercepted'' then
        ''ElementInteractionError''
      else if includes_str message ''permission'' \<or> includes_str message ''access denied'' then
        ''PermissionError''
      else ''Unknown'')"

section \<open>Data model (\<open>types.ts\<close>)\<close>

text \<open>
  Durations are JavaScript numbers. They are modelled as rationals: the properties below
  depend only on their order, on equality and on which values are copied where.
\<close>

datatype Status = Passed | Failed | TimedOut | Skipped | Interrupted

record TestError =
  message :: string
  stack :: "string option"

record AttemptInfo =
  status :: Status
  duration :: rat
  errors :: "TestError list"

record Location =
  file_l :: string
  line :: int
  column :: int

record TestCaseDetails =
  testId :: "string option"
  testTitle :: string
  suiteTitle :: string
  testFile :: "string option"
  location :: "Location option"
  status_t :: "string option"
  outcome :: "string option"
  owningTeam :: "string option"

record TestRecord =
  test :: TestCaseDetails
  attempts :: "AttemptInfo list"

record TestFailure =
  testId_f :: "string option"
  testTitle_f :: string
  suiteTitle_f :: string
  owningTeam_f :: string
  errorMessage :: string
  errorStack :: string
  duration_f :: rat
  isTimeout :: bool
  errorCategory :: string
  testFile_f :: "string option"
  location_f :: "Location option"

record SlowTest =
  testTitle_s :: string
  duration_s :: rat

record BuildInfo =
  isPipeline :: bool
  executionSystem :: "string option"
  artifactsLink :: "string option"
  buildLink :: "string option"
  buildId :: "string option"
  buildNumber :: "string option"
  buildBranch :: "string option"
  buildRepository :: "string option"
  commitId :: "string option"
  commitLink :: "string option"
  testLink :: "string option"

record TestSummary =
  failures :: "TestFailure list"
  testCount :: int
  passedCount :: int
  skippedCount :: int
  failedCount :: int
  totalTimeDisplay :: string
  averageTime :: rat
  slowestTest :: rat
  slowestTests :: "SlowTest list"
  buildInfo :: "BuildInfo option"

text \<open>
  A \<open>Map<string, TestRecord>\<close> keeps its entries in insertion order with one entry per
  key: an association list. \<open>set\<close> on a present key replaces the value in place,
  on an absent key it appends.
\<close>

type_synonym 'v jsmap = "(string \<times> 'v) list"

definition map_has :: "string \<Rightarrow> 'v jsmap \<Rightarrow> bool" where
  "map_has k m = (map_of m k \<noteq> None)"

definition map_get :: "string \<Rightarrow> 'v jsmap \<Rightarrow> 'v option" where
  "map_get k m = map_of m k"

fun map_set :: "string \<Rightarrow> 'v \<Rightarrow> 'v jsmap \<Rightarrow> 'v jsmap" where
  "map_set k v [] = [(k, v)]"
| "map_set k v (p # ps) = (if fst p = k then (k, v) # ps else p # map_set k v ps)"

definition map_values :: "'v jsmap \<Rightarrow> 'v list" where
  "map_values m = map snd m"

section \<open>Test utilities (\<open>TestUtils\<close>)\<close>

definition calculateAverageTime :: "rat list \<Rightarrow> rat" where
  "calculateAverageTime durations =
     (if length durations = 0 then 0
      else foldl (\<lambda>sum d. sum + d) 0 durations / of_nat (length durations))"

text \<open>
  \<open>Array.prototype.sort\<close> with a comparator is a stable sort: an element is moved
  behind another only if the comparator puts it strictly after. \<open>insert_by\<close> puts
  \<open>x\<close>, which came before every element of the sorted rest, in front of the first
  element it need not follow.
\<close>

fun insert_by :: "('a \<Rightarrow> 'a \<Rightarrow> rat) \<Rightarrow> 'a \<Rightarrow> 'a list \<Rightarrow> 'a list" where
  "insert_by cmp x [] = [x]"
| "insert_by cmp x (y # ys) = (if cmp x y \<le> 0 then x # y # ys else y # insert_by cmp x ys)"

definition sort_by :: "('a \<Rightarrow> 'a \<Rightarrow> rat) \<Rightarrow> 'a list \<Rightarrow> 'a list" where
  "sort_by cmp xs = foldr (insert_by cmp) xs []"

text \<open>
  \<open>xs.slice(0, stop)\<close> for an integral \<open>stop\<close>: a negative \<open>stop\<close> counts from
  the end of the array. (A fractional limit is truncated towards zero by \<open>slice\<close>
  first.)
\<close>

definition slice0 :: "'a list \<Rightarrow> int \<Rightarrow> 'a list" where
  "slice0 xs stop =
     (if stop < 0 then take (nat (int (length xs) + stop)) xs else take (nat stop) xs)"

text \<open>
  The \<open>flatMap\<close> stage of \<open>findSlowestTests\<close>: one entry per passed attempt of a
  record, and the entries of all records in store order.
\<close>

definition passedAttempts :: "TestRecord \<Rightarrow> SlowTest list" where
  "passedAttempts r =
     map (\<lambda>a. \<lparr>testTitle_s = testTitle (test r), duration_s = duration a\<rparr>)
       (filter (\<lambda>a. status a = Passed) (attempts r))"

definition passedAttemptPool :: "TestRecord jsmap \<Rightarrow> SlowTest list" where
  "passedAttemptPool testRecords = concat (map passedAttempts (map_values testRecords))"

definition findSlowestTests :: "TestRecord jsmap \<Rightarrow> int \<Rightarrow> SlowTest list" where
  "findSlowestTests testRecords limit =
     slice0 (sort_by (\<lambda>a b. duration_s b - duration_s a) (passedAttemptPool testRecords)) limit"

definition outcomeToStatus :: "string \<Rightarrow> string" where
  "outcomeToStatus outcome' =
     (if outcome' = ''skipped'' then ''skipped''
      else if outcome' = ''expected'' then ''passed''
      else if outcome' = ''unexpected'' then ''failed''
      else if outcome' = ''flaky'' then ''failed''
      else outcome')"

subsection \<open>\<open>processTestResults\<close>\<close>

text \<open>
  The object the function returns; it is also the state of its loop, \<open>failedCount\<close>
  staying \<open>0\<close> until the loop is over.
\<close>

record Results =
  passedCount_r :: int
  testCount_r :: int
  skippedCount_r :: int
  failedCount_r :: int
  failures_r :: "TestFailure list"
  passedDurations_r :: "rat list"

text \<open>
  Reading a property of \<open>undefined\<close> throws a \<open>TypeError\<close>. A call that spreads an
  array into more arguments than the engine takes throws a \<open>RangeError\<close>; the source
  spreads in two places, \<open>passedDurations.push(...)\<close> in \<open>processTestResults\<close> and
  \<open>Math.max(...)\<close> in \<open>onEnd\<close>. How many arguments each of the two calls takes depends
  on the engine and its stack, so the two limits are parameters.
\<close>

datatype error = TypeError | RangeError

record Engine =
  pushArguments :: nat
  maxArguments :: nat

definition initResults :: Results where
  "initResults =
     \<lparr>passedCount_r = 0, testCount_r = 0, skippedCount_r = 0, failedCount_r = 0,
      failures_r = [], passedDurations_r = []\<rparr>"

text \<open>\<open>attempts[attempts.length - 1]\<close>: \<open>undefined\<close> when there is no attempt.\<close>

definition finalAttemptOf :: "AttemptInfo list \<Rightarrow> AttemptInfo option" where
  "finalAttemptOf as = (if as = [] then None else Some (last as))"

text \<open>The failure pushed for outcome \<open>unexpected\<close>.\<close>

definition unexpectedFailure :: "TestCaseDetails \<Rightarrow> AttemptInfo \<Rightarrow> TestFailure" where
  "unexpectedFailure t finalAttempt =
     (let isTimeout' = list_ex (\<lambda>e. includes_str (message e) ''timeout'') (errors finalAttempt);
          combinedStack = join [CHR 0x0A] (map (\<lambda>e. orElse (stack e) []) (errors finalAttempt));
          errorMessage' = orElse (map_option message (first (errors finalAttempt))) [];
          errorCategory' = categorizeError errorMessage'
      in \<lparr>testId_f = testId t,
          testTitle_f = testTitle t,
          suiteTitle_f = orElse (Some (suiteTitle t)) ''Unknown Suite'',
          owningTeam_f = orElse (owningTeam t) ''Unknown Team'',
          errorMessage = errorMessage',
          errorStack = combinedStack,
          duration_f = duration finalAttempt,
          isTimeout = isTimeout',
          errorCategory = errorCategory',
          testFile_f = testFile t,
          location_f = location t\<rparr>)"

text \<open>
  The failure pushed for any other outcome. An absent outcome prints as \<open>undefined\<close> in
  the template string.
\<close>

definition erroredFailure :: "TestCaseDetails \<Rightarrow> AttemptInfo \<Rightarrow> TestFailure" where
  "erroredFailure t finalAttempt =
     (let errorMessage' =
            (if status finalAttempt = Interrupted then ''Test was interrupted''
             else ''Unknown outcome: '' @ (case outcome t of None \<Rightarrow> ''undefined'' | Some l \<Rightarrow> l));
          errorCategory' = categorizeError errorMessage'
      in \<lparr>testId_f = testId t,
          testTitle_f = testTitle t,
          suiteTitle_f = orElse (Some (suiteTitle t)) ''Unknown Suite'',
          owningTeam_f = orElse (owningTeam t) ''Unknown Team'',
          errorMessage = errorMessage',
          errorStack = [],
          duration_f = duration finalAttempt,
          isTimeout = False,
          errorCategory = errorCategory',
          testFile_f = testFile t,
          location_f = location t\<rparr>)"

text \<open>One iteration of the loop over \<open>testRecords.values()\<close>.\<close>

definition processRecord :: "Engine \<Rightarrow> Results \<Rightarrow> TestRecord \<Rightarrow> error + Results" where
  "processRecord eng acc r =
     (let acc = acc\<lparr>testCount_r := testCount_r acc + 1\<rparr>;
          finalOutcome = outcome (test r);
          finalAttempt = finalAttemptOf (attempts r)
      in if finalOutcome = Some ''expected'' \<or> finalOutcome = Some ''flaky'' then
           (let acc = acc\<lparr>passedCount_r := passedCount_r acc + 1\<rparr>;
                items = map duration (filter (\<lambda>a. status a = Passed) (attempts r))
            in if length items > pushArguments eng then Inl RangeError
               else Inr (acc\<lparr>passedDurations_r := passedDurations_r acc @ items\<rparr>))
         else if finalOutcome = Some ''unexpected'' then
           (case finalAttempt of
              None \<Rightarrow> Inl TypeError
            | Some fa \<Rightarrow> Inr (acc\<lparr>failures_r := failures_r acc @ [unexpectedFailure (test r) fa]\<rparr>))
         else if finalOutcome = Some ''skipped'' then
           Inr (acc\<lparr>skippedCount_r := skippedCount_r acc + 1\<rparr>)
         else
           (case finalAttempt of
              None \<Rightarrow> Inl TypeError
            | Some fa \<Rightarrow> Inr (acc\<lparr>failures_r := failures_r acc @ [erroredFailure (test r) fa]\<rparr>)))"

fun processAll :: "Engine \<Rightarrow> Results \<Rightarrow> TestRecord list \<Rightarrow> error + Results" where
  "processAll eng acc [] = Inr acc"
| "processAll eng acc (r # rs) =
     (case processRecord eng acc r of Inl e \<Rightarrow> Inl e | Inr acc' \<Rightarrow> processAll eng acc' rs)"

definition processTestResults :: "Engine \<Rightarrow> TestRecord jsmap \<Rightarrow> error + Results" where
  "processTestResults eng testRecords =
     (case processAll eng initResults (map_values testRecords) of
        Inl e \<Rightarrow> Inl e
      | Inr acc \<Rightarrow> Inr (acc\<lparr>failedCount_r := int (length (failures_r acc))\<rparr>))"

section \<open>The reporter (\<open>reporter.ts\<close>)\<close>

text \<open>What the test runner hands to the reporter.\<close>

record RunnerError =
  message_e :: "string option"
  stack_e :: "string option"

record TestResult =
  status_tr :: Status
  duration_tr :: rat
  errors_tr :: "RunnerError list"
  retry :: nat

text \<open>
  A \<open>TestCase\<close> as far as the reporter reads it: \<open>parentTitle\<close> is
  \<open>test.parent?.title\<close>, \<open>outcome_c\<close> is what \<open>test.outcome()\<close> returns when called.
\<close>

record TestCase =
  id_c :: string
  title :: string
  parentTitle :: "string option"
  location_c :: "Location option"
  outcome_c :: string

record ReporterConfig =
  maxSlowTestsToShow :: int
  showStackTrace :: bool
  generateFix :: bool

record LastRunData =
  status_l :: string
  failedTests :: "string list"

text \<open>
  Console output, the file handler, the file system and the fix-suggestion generator are
  outside the reporter. Each call to them is recorded, with its arguments, in the order
  the calls are made, and is taken to return.
\<close>

datatype Console =
    SetupErrorLine string
  | StackLine string
  | TestOutcomeLine string Status nat rat
  | NoTestsFound
  | SummaryLines TestSummary
  | NonTestErrorLines "TestError list"
  | FailureLines "TestFailure list"
  | InterruptedWarning
  | LastRunWriteError

datatype Effect =
    Console Console
  | AddFailure TestFailure
  | GenerateFixSuggestions "TestFailure list"
  | WriteSummary TestSummary "TestCaseDetails list"
  | WriteLastRun LastRunData

record Reporter =
  config :: ReporterConfig
  testRecords :: "TestRecord jsmap"
  nonTestErrors :: "TestError list"
  hasInterruptedTests :: bool
  effects :: "Effect list"
  exitCode :: "int option"

definition emit :: "Effect list \<Rightarrow> Reporter \<Rightarrow> Reporter" where
  "emit es st = st\<lparr>effects := effects st @ es\<rparr>"

definition newReporter :: "ReporterConfig \<Rightarrow> Reporter" where
  "newReporter c =
     \<lparr>config = c, testRecords = [], nonTestErrors = [], hasInterruptedTests = False,
      effects = [], exitCode = None\<rparr>"

definition onError :: "TestError \<Rightarrow> Reporter \<Rightarrow> Reporter" where
  "onError err st =
     (let st = emit [Console (SetupErrorLine (message err))] st;
          st = (if orElse (stack err) [] \<noteq> [] \<and> showStackTrace (config st)
                then emit [Console (StackLine (orElse (stack err) []))] st else st)
      in st\<lparr>nonTestErrors := nonTestErrors st @ [err]\<rparr>)"

text \<open>
  \<open>TestUtils.getOwningTeam\<close> reads the title, the annotations and the process environment;
  its result is only copied into the records, so it is the parameter \<open>getOwningTeam\<close>.
\<close>

definition onTestEnd ::
  "(TestCase \<Rightarrow> string) \<Rightarrow> TestCase \<Rightarrow> TestResult \<Rightarrow> Reporter \<Rightarrow> Reporter" where
  "onTestEnd getOwningTeam test' result st =
     (let title' = title test';
          timeTakenSec = duration_tr result / 1000;
          st = (if \<not> map_has title' (testRecords st) then
                  (let testCaseDetails =
                         \<lparr>testId = Some (id_c test'),
                          testTitle = title test',
                          suiteTitle = orElse (parentTitle test') ''Unknown Suite'',
                          testFile = map_option file_l (location_c test'),
                          location = location_c test',
                          status_t = Some (outcomeToStatus (outcome_c test')),
                          outcome = Some (outcome_c test'),
                          owningTeam = Some (getOwningTeam test')\<rparr>
                   in st\<lparr>testRecords :=
                          map_set title' \<lparr>test = testCaseDetails, attempts = []\<rparr> (testRecords st)\<rparr>)
                else st);
          st = (case map_get title' (testRecords st) of
                  None \<Rightarrow> st
                | Some testRecord \<Rightarrow>
                    st\<lparr>testRecords :=
                         map_set title'
                           (testRecord\<lparr>attempts := attempts testRecord @
                              [\<lparr>status = status_tr result,
                                duration = timeTakenSec,
                                errors = map (\<lambda>e. \<lparr>message = orElse (message_e e) ''No error message'',
                                                     stack = stack_e e\<rparr>) (errors_tr result)\<rparr>]\<rparr>)
                           (testRecords st)\<rparr>);
          st = (if status_tr result = Failed \<or> status_tr result = TimedOut then
                  (let errorMessage' =
                         orElse (Option.bind (first (errors_tr result)) message_e) ''Unknown error'';
                       errorCategory' = categorizeError errorMessage'
                   in emit [AddFailure
                        \<lparr>testId_f = Some (id_c test'),
                         testTitle_f = title test',
                         suiteTitle_f = orElse (parentTitle test') ''Unknown Suite'',
                         owningTeam_f = getOwningTeam test',
                         errorMessage = errorMessage',
                         errorStack = orElse (Option.bind (first (errors_tr result)) stack_e) [],
                         duration_f = timeTakenSec,
                         isTimeout = (status_tr result = TimedOut),
                         errorCategory = errorCategory',
                         testFile_f = map_option file_l (location_c test'),
                         location_f = location_c test'\<rparr>] st)
                else st);
          st = (if status_tr result = Interrupted then st\<lparr>hasInterruptedTests := True\<rparr> else st)
      in emit [Console (TestOutcomeLine title' (status_tr result) (retry result) timeTakenSec)] st)"

definition exitWithSuccess :: "Reporter \<Rightarrow> Reporter" where
  "exitWithSuccess st = st\<lparr>exitCode := Some 0\<rparr>"

definition exitWithError :: "Reporter \<Rightarrow> Reporter" where
  "exitWithError st = st\<lparr>exitCode := Some 1\<rparr>"

text \<open>
  \<open>writeFails\<close> says whether \<open>fs.writeFileSync\<close> throws; the exception is caught and
  logged.
\<close>

definition saveLastRunStatus :: "bool \<Rightarrow> bool \<Rightarrow> Reporter \<Rightarrow> Reporter" where
  "saveLastRunStatus writeFails hasFailed st =
     (let failedTests' =
            map (\<lambda>r. orElse (testId (test r)) [])
              (filter (\<lambda>r. status_t (test r) = Some ''failed'') (map_values (testRecords st)));
          lastRunData =
            \<lparr>status_l = (if hasFailed then ''failed'' else ''passed''), failedTests = failedTests'\<rparr>;
          st = emit [WriteLastRun lastRunData] st
      in if writeFails then emit [Console LastRunWriteError] st else st)"

text \<open>What \<open>onEnd\<close> takes from its environment: the formatted elapsed time, the build
  information and whether the last-run file can be written.\<close>

record EndEnv =
  totalTimeDisplay_e :: string
  buildInfo_e :: "BuildInfo option"
  lastRunWriteFails :: bool

text \<open>
  The summary object \<open>onEnd\<close> computes from the results. Its properties are evaluated
  in order; \<open>Math.max(...passedDurations, 0)\<close> is called with one argument more than
  there are passed durations.
\<close>

definition makeSummary :: "Engine \<Rightarrow> EndEnv \<Rightarrow> Reporter \<Rightarrow> Results \<Rightarrow> error + TestSummary" where
  "makeSummary eng env st res =
     (if length (passedDurations_r res) + 1 > maxArguments eng then Inl RangeError
      else
        Inr \<lparr>failures = failures_r res,
             testCount = testCount_r res,
             passedCount = passedCount_r res,
             skippedCount = skippedCount_r res,
             failedCount = testCount_r res - passedCount_r res - skippedCount_r res,
             totalTimeDisplay = totalTimeDisplay_e env,
             averageTime = calculateAverageTime (passedDurations_r res),
             slowestTest = foldr max (passedDurations_r res) 0,
             slowestTests = findSlowestTests (testRecords st) (maxSlowTestsToShow (config st)),
             buildInfo = buildInfo_e env\<rparr>)"

text \<open>
  \<open>onEnd\<close> returns the reporter it leaves, or the error it throws. Where it throws it
  has called none of its collaborators and has not set the exit code.
\<close>

definition onEnd :: "Engine \<Rightarrow> EndEnv \<Rightarrow> Reporter \<Rightarrow> error + Reporter" where
  "onEnd eng env st =
     (case processTestResults eng (testRecords st) of
        Inl e \<Rightarrow> Inl e
      | Inr res \<Rightarrow>
          if testCount_r res = 0 then
            Inr (exitWithError (emit [Console NoTestsFound] st))
          else
            (case makeSummary eng env st res of
               Inl e \<Rightarrow> Inl e
             | Inr summary \<Rightarrow>
                 (let st = (if generateFix (config st) \<and> length (failures_r res) > 0
                            then emit [GenerateFixSuggestions (failures_r res)] st else st);
                      st = emit [Console (SummaryLines summary)] st;
                      st = (if length (nonTestErrors st) > 0
                            then emit [Console (NonTestErrorLines (nonTestErrors st))] st else st);
                      st = (if length (failures_r res) > 0
                            then emit [Console (FailureLines (failures_r res))] st else st);
                      allTestCases = map test (map_values (testRecords st));
                      st = emit [WriteSummary summary allTestCases] st;
                      st = saveLastRunStatus (lastRunWriteFails env) (length (failures_r res) > 0) st;
                      st = (if hasInterruptedTests st then emit [Console InterruptedWarning] st else st);
                      hasErrors = (length (failures_r res) > 0 \<or> length (nonTestErrors st) > 0
                                   \<or> hasInterruptedTests st)
                  in Inr (if hasErrors then exitWithError st else exitWithSuccess st))))"

text \<open>The runner's calls between \<open>onBegin\<close> and \<open>onEnd\<close>, one at a time.\<close>

datatype Event = TestEnd TestCase TestResult | RunError TestError

fun handle :: "(TestCase \<Rightarrow> string) \<Rightarrow> Event \<Rightarrow> Reporter \<Rightarrow> Reporter" where
  "handle g (TestEnd t r) st = onTestEnd g t r st"
| "handle g (RunError e) st = onError e st"

definition runEvents :: "(TestCase \<Rightarrow> string) \<Rightarrow> Event list \<Rightarrow> Reporter \<Rightarrow> Reporter" where
  "runEvents g evs st = foldl (\<lambda>s ev. handle g ev s) st evs"

section \<open>The aggregation over an explicit store\<close>

text \<open>
  Whether the aggregation changes the store is a question about shared, mutable arrays,
  which a function from store values to results cannot ask. So \<open>processTestResults\<close> is
  modelled a second time over a heap. The source assigns to no property of an object; what
  it can change are arrays, through their methods. Every array is a cell of the heap: the
  entries of the map, the \<open>attempts\<close> of a record, the \<open>errors\<close> of an attempt, and the
  arrays the function creates. A record holds the address of its \<open>attempts\<close>, an attempt
  the address of its \<open>errors\<close>.
\<close>

type_synonym addr = nat

record AttemptInfoH =
  status_h :: Status
  duration_h :: rat
  errors_h :: addr

record TestRecordH =
  test_h :: TestCaseDetails
  attempts_h :: addr

datatype cell =
    Records "(string \<times> TestRecordH) list"
  | Attempts "AttemptInfoH list"
  | Errors "TestError list"
  | Durations "rat list"
  | Strings "string list"
  | Failures "TestFailure list"

record Heap =
  cells :: "addr \<Rightarrow> cell option"
  nxt :: addr

text \<open>
  A new array takes the next free address. Reading a cell that is not an array of the
  expected kind cannot happen on a store of the declared type; it ends the run with an
  error. \<open>push\<close> changes the array it is called on, in place.
\<close>

definition alloc :: "cell \<Rightarrow> Heap \<Rightarrow> addr \<times> Heap" where
  "alloc c h = (nxt h, h\<lparr>cells := (cells h)(nxt h \<mapsto> c), nxt := Suc (nxt h)\<rparr>)"

definition readRecords :: "Heap \<Rightarrow> addr \<Rightarrow> error + (string \<times> TestRecordH) list" where
  "readRecords h a = (case cells h a of Some (Records kvs) \<Rightarrow> Inr kvs | _ \<Rightarrow> Inl TypeError)"

definition readAttempts :: "Heap \<Rightarrow> addr \<Rightarrow> error + AttemptInfoH list" where
  "readAttempts h a = (case cells h a of Some (Attempts as) \<Rightarrow> Inr as | _ \<Rightarrow> Inl TypeError)"

definition readErrors :: "Heap \<Rightarrow> addr \<Rightarrow> error + TestError list" where
  "readErrors h a = (case cells h a of Some (Errors es) \<Rightarrow> Inr es | _ \<Rightarrow> Inl TypeError)"

definition readDurations :: "Heap \<Rightarrow> addr \<Rightarrow> error + rat list" where
  "readDurations h a = (case cells h a of Some (Durations ds) \<Rightarrow> Inr ds | _ \<Rightarrow> Inl TypeError)"

definition readFailures :: "Heap \<Rightarrow> addr \<Rightarrow> error + TestFailure list" where
  "readFailures h a = (case cells h a of Some (Failures fs) \<Rightarrow> Inr fs | _ \<Rightarrow> Inl TypeError)"

definition pushDurations :: "addr \<Rightarrow> rat list \<Rightarrow> Heap \<Rightarrow> error + Heap" where
  "pushDurations a items h =
     (case readDurations h a of
        Inl e \<Rightarrow> Inl e
      | Inr ds \<Rightarrow> Inr (h\<lparr>cells := (cells h)(a \<mapsto> Durations (ds @ items))\<rparr>))"

definition pushFailure :: "addr \<Rightarrow> TestFailure \<Rightarrow> Heap \<Rightarrow> error + Heap" where
  "pushFailure a f h =
     (case readFailures h a of
        Inl e \<Rightarrow> Inl e
      | Inr fs \<Rightarrow> Inr (h\<lparr>cells := (cells h)(a \<mapsto> Failures (fs @ [f]))\<rparr>))"

text \<open>The local variables of \<open>processTestResults\<close>; its two arrays are addresses.\<close>

record Locals =
  passedCount_l :: int
  testCount_l :: int
  skippedCount_l :: int
  failures_l :: addr
  passedDurations_l :: addr

text \<open>
  One iteration of the loop, with the heap effect of each array method: \<open>filter\<close> and
  \<open>map\<close> create a new array, \<open>some\<close>, \<open>join\<close>, indexing and spreading read,
  \<open>push\<close> writes, unless it is given too many arguments and throws. The failure
  objects are the ones of the first model.
\<close>

definition processRecordH ::
  "Engine \<Rightarrow> Locals \<Rightarrow> TestRecordH \<Rightarrow> Heap \<Rightarrow> (error + Locals) \<times> Heap" where
  "processRecordH eng ls r h =
     (let ls = ls\<lparr>testCount_l := testCount_l ls + 1\<rparr>;
          finalOutcome = outcome (test_h r)
      in case readAttempts h (attempts_h r) of
           Inl e \<Rightarrow> (Inl e, h)
         | Inr as \<Rightarrow>
             (let finalAttempt = (if as = [] then None else Some (last as))
              in if finalOutcome = Some ''expected'' \<or> finalOutcome = Some ''flaky'' then
                   (let ls = ls\<lparr>passedCount_l := passedCount_l ls + 1\<rparr>;
                        (passed', h) = alloc (Attempts (filter (\<lambda>a. status_h a = Passed) as)) h;
                        (items, h) = alloc (Durations (map duration_h (filter (\<lambda>a. status_h a = Passed) as))) h
                    in if length (filter (\<lambda>a. status_h a = Passed) as) > pushArguments eng
                       then (Inl RangeError, h)
                       else
                         (case pushDurations (passedDurations_l ls)
                                 (map duration_h (filter (\<lambda>a. status_h a = Passed) as)) h of
                            Inl e \<Rightarrow> (Inl e, h)
                          | Inr h \<Rightarrow> (Inr ls, h)))
                 else if finalOutcome = Some ''unexpected'' then
                   (case finalAttempt of
                      None \<Rightarrow> (Inl TypeError, h)
                    | Some fa \<Rightarrow>
                        (case readErrors h (errors_h fa) of
                           Inl e \<Rightarrow> (Inl e, h)
                         | Inr es \<Rightarrow>
                             (let (stacks, h) = alloc (Strings (map (\<lambda>e. orElse (stack e) []) es)) h;
                                  f = unexpectedFailure (test_h r)
                                        \<lparr>status = status_h fa, duration = duration_h fa, errors = es\<rparr>
                              in case pushFailure (failures_l ls) f h of
                                   Inl e \<Rightarrow> (Inl e, h)
                                 | Inr h \<Rightarrow> (Inr ls, h))))
                 else if finalOutcome = Some ''skipped'' then
                   (Inr (ls\<lparr>skippedCount_l := skippedCount_l ls + 1\<rparr>), h)
                 else
                   (case finalAttempt of
                      None \<Rightarrow> (Inl TypeError, h)
                    | Some fa \<Rightarrow>
                        (let f = erroredFailure (test_h r)
                                   \<lparr>status = status_h fa, duration = duration_h fa, errors = []\<rparr>
                         in case pushFailure (failures_l ls) f h of
                              Inl e \<Rightarrow> (Inl e, h)
                            | Inr h \<Rightarrow> (Inr ls, h)))))"

fun processAllH ::
  "Engine \<Rightarrow> Locals \<Rightarrow> TestRecordH list \<Rightarrow> Heap \<Rightarrow> (error + Locals) \<times> Heap" where
  "processAllH eng ls [] h = (Inr ls, h)"
| "processAllH eng ls (r # rs) h =
     (case processRecordH eng ls r h of
        (Inl e, h) \<Rightarrow> (Inl e, h)
      | (Inr ls, h) \<Rightarrow> processAllH eng ls rs h)"

record ResultsH =
  passedCount_h :: int
  testCount_h :: int
  skippedCount_h :: int
  failedCount_h :: int
  failures_h :: addr
  passedDurations_h :: addr

definition processTestResultsH :: "Engine \<Rightarrow> addr \<Rightarrow> Heap \<Rightarrow> (error + ResultsH) \<times> Heap" where
  "processTestResultsH eng testRecords' h =
     (let (failures', h) = alloc (Failures []) h;
          (passedDurations', h) = alloc (Durations []) h;
          ls = \<lparr>passedCount_l = 0, testCount_l = 0, skippedCount_l = 0,
                failures_l = failures', passedDurations_l = passedDurations'\<rparr>
      in case readRecords h testRecords' of
           Inl e \<Rightarrow> (Inl e, h)
         | Inr kvs \<Rightarrow>
             (case processAllH eng ls (map snd kvs) h of
                (Inl e, h) \<Rightarrow> (Inl e, h)
              | (Inr ls, h) \<Rightarrow>
                  (case readFailures h (failures_l ls) of
                     Inl e \<Rightarrow> (Inl e, h)
                   | Inr fs \<Rightarrow>
                       (Inr \<lparr>passedCount_h = passedCount_l ls, testCount_h = testCount_l ls,
                              skippedCount_h = skippedCount_l ls,
                              failedCount_h = int (length fs),
                              failures_h = failures_l ls,
                              passedDurations_h = passedDurations_l ls\<rparr>, h))))"

text \<open>
  The store and the results a heap holds, as the values of the first model.
\<close>

definition absAttempt :: "Heap \<Rightarrow> AttemptInfoH \<Rightarrow> AttemptInfo" where
  "absAttempt h a =
     \<lparr>status = status_h a, duration = duration_h a,
      errors = (case readErrors h (errors_h a) of Inr es \<Rightarrow> es | Inl e \<Rightarrow> [])\<rparr>"

definition absRecord :: "Heap \<Rightarrow> TestRecordH \<Rightarrow> TestRecord" where
  "absRecord h r =
     \<lparr>test = test_h r,
      attempts = (case readAttempts h (attempts_h r) of Inr as \<Rightarrow> map (absAttempt h) as | Inl e \<Rightarrow> [])\<rparr>"

definition absStore :: "Heap \<Rightarrow> addr \<Rightarrow> TestRecord jsmap" where
  "absStore h m =
     (case readRecords h m of Inr kvs \<Rightarrow> map (\<lambda>kv. (fst kv, absRecord h (snd kv))) kvs | Inl e \<Rightarrow> [])"

definition viewResults :: "Heap \<Rightarrow> error + ResultsH \<Rightarrow> error + Results" where
  "viewResults h r =
     (case r of
        Inl e \<Rightarrow> Inl e
      | Inr rh \<Rightarrow>
          Inr \<lparr>passedCount_r = passedCount_h rh, testCount_r = testCount_h rh,
               skippedCount_r = skippedCount_h rh, failedCount_r = failedCount_h rh,
               failures_r = (case readFailures h (failures_h rh) of Inr fs \<Rightarrow> fs | Inl e \<Rightarrow> []),
               passedDurations_r =
                 (case readDurations h (passedDurations_h rh) of Inr ds \<Rightarrow> ds | Inl e \<Rightarrow> [])\<rparr>)"

text \<open>
  A heap holds a store at \<open>m\<close>: the map, the attempts of every record and the errors
  of every attempt are arrays of their kind, at allocated addresses.
\<close>

definition isErrorsAt :: "Heap \<Rightarrow> AttemptInfoH \<Rightarrow> bool" where
  "isErrorsAt h a = (errors_h a < nxt h \<and> (case readErrors h (errors_h a) of Inr es \<Rightarrow> True | Inl e \<Rightarrow> False))"

definition wfRecord :: "Heap \<Rightarrow> TestRecordH \<Rightarrow> bool" where
  "wfRecord h r =
     (attempts_h r < nxt h \<and>
      (case readAttempts h (attempts_h r) of Inr as \<Rightarrow> list_all (isErrorsAt h) as | Inl e \<Rightarrow> False))"

definition wfStore :: "Heap \<Rightarrow> addr \<Rightarrow> bool" where
  "wfStore h m =
     (m < nxt h \<and>
      (case readRecords h m of Inr kvs \<Rightarrow> list_all (\<lambda>kv. wfRecord h (snd kv)) kvs | Inl e \<Rightarrow> False))"

text \<open>Every cell allocated in \<open>h\<close> has in \<open>h'\<close> the content it has in \<open>h\<close>.\<close>

definition unchangedBelow :: "Heap \<Rightarrow> Heap \<Rightarrow> bool" where
  "unchangedBelow h h' = (nxt h \<le> nxt h' \<and> (\<forall>a. a < nxt h \<longrightarrow> cells h' a = cells h a))"

text \<open>
  The loop invariant: the two local arrays are distinct arrays created after \<open>h0\<close>;
  and the results the locals stand for.
\<close>

definition localsOk :: "Heap \<Rightarrow> Heap \<Rightarrow> Locals \<Rightarrow> bool" where
  "localsOk h0 h ls =
     (nxt h0 \<le> failures_l ls \<and> nxt h0 \<le> passedDurations_l ls
      \<and> failures_l ls < nxt h \<and> passedDurations_l ls < nxt h
      \<and> failures_l ls \<noteq> passedDurations_l ls
      \<and> (\<exists>fs. cells h (failures_l ls) = Some (Failures fs))
      \<and> (\<exists>ds. cells h (passedDurations_l ls) = Some (Durations ds)))"

definition absLocals :: "Heap \<Rightarrow> Locals \<Rightarrow> Results" where
  "absLocals h ls =
     \<lparr>passedCount_r = passedCount_l ls, testCount_r = testCount_l ls,
      skippedCount_r = skippedCount_l ls, failedCount_r = 0,
      failures_r = (case readFailures h (failures_l ls) of Inr fs \<Rightarrow> fs | Inl e \<Rightarrow> []),
      passedDurations_r =
        (case readDurations h (passedDurations_l ls) of Inr ds \<Rightarrow> ds | Inl e \<Rightarrow> [])\<rparr>"

text \<open>
  Every store value is held by some heap: \<open>heapOf\<close> lays a store out, one array after
  the other.
\<close>

fun storeAttempts :: "AttemptInfo list \<Rightarrow> Heap \<Rightarrow> AttemptInfoH list \<times> Heap" where
  "storeAttempts [] h = ([], h)"
| "storeAttempts (a # as) h =
     (let (e, h) = alloc (Errors (errors a)) h;
          (ahs, h) = storeAttempts as h
      in (\<lparr>status_h = status a, duration_h = duration a, errors_h = e\<rparr> # ahs, h))"

fun storeRecords :: "TestRecord jsmap \<Rightarrow> Heap \<Rightarrow> (string \<times> TestRecordH) list \<times> Heap" where
  "storeRecords [] h = ([], h)"
| "storeRecords (kr # rs) h =
     (let (ahs, h) = storeAttempts (attempts (snd kr)) h;
          (a, h) = alloc (Attempts ahs) h;
          (kvs, h) = storeRecords rs h
      in ((fst kr, \<lparr>test_h = test (snd kr), attempts_h = a\<rparr>) # kvs, h))"

definition heapOf :: "TestRecord jsmap \<Rightarrow> addr \<times> Heap" where
  "heapOf recs =
     (let (kvs, h) = storeRecords recs \<lparr>cells = Map.empty, nxt = 0\<rparr>
      in alloc (Records kvs) h)"

text \<open>A heap holding the store of a flaky test: a failed attempt, then a passed one.\<close>

definition exampleHeap :: Heap where
  "exampleHeap =
     \<lparr>cells = Map.empty
        (0 \<mapsto> Records [(''checkout'',
                \<lparr>test_h = \<lparr>testId = Some ''id-1'', testTitle = ''checkout'', suiteTitle = ''shop'',
                           testFile = None, location = None, status_t = Some ''failed'',
                           outcome = Some ''flaky'', owningTeam = Some ''Unknown''\<rparr>,
                 attempts_h = 1\<rparr>)],
         1 \<mapsto> Attempts [\<lparr>status_h = Failed, duration_h = 5, errors_h = 2\<rparr>,
                       \<lparr>status_h = Passed, duration_h = 123 / 100, errors_h = 3\<rparr>],
         2 \<mapsto> Errors [\<lparr>message = ''Timeout of 5000ms exceeded'', stack = Some ''at step 1''\<rparr>],
         3 \<mapsto> Errors []),
      nxt = 4\<rparr>"

section \<open>The classifier as the specification words it\<close>

text \<open>
  The specification describes the classifier as an ordered list of substring rules, the
  first rule with a matching pattern giving the category and \<open>Unknown\<close> the category
  when no rule matches. \<open>classify\<close> follows these words, to be compared with
  \<open>categorizeError\<close>.
\<close>

definition classifyRules :: "(string list \<times> string) list" where
  "classifyRules =
     [([''No node found'', ''not visible''], ''ElementNotFound''),
      ([''Timeout'', ''timed out''], ''Timeout/DelayedElement''),
      ([''selector'', ''locator''], ''SelectorChanged''),
      ([''expect('', ''assertion failed''], ''AssertionFailure''),
      ([''Network'', ''fetch failed'', ''status=''], ''NetworkError''),
      ([''javascript error'', ''undefined is not'', ''null''], ''JavaScriptError''),
      ([''navigation'', ''page.goto''], ''NavigationError''),
      ([''element is not clickable'', ''intercepted''], ''ElementInteractionError''),
      ([''permission'', ''access denied''], ''PermissionError'')]"

fun firstMatch :: "(string list \<times> string) list \<Rightarrow> string \<Rightarrow> string" where
  "firstMatch [] m = ''Unknown''"
| "firstMatch ((pats, category) # rules) m =
     (if list_ex (includes_str m) pats then category else firstMatch rules m)"

definition classify :: "string \<Rightarrow> string" where
  "classify m = firstMatch classifyRules m"

section \<open>The aggregation as the specification words it\<close>

text \<open>
  The specification sorts every record into one of three buckets by the outcome captured
  at its creation, and describes the aggregate as counts and lists over the buckets.
  The definitions below follow these words, to be compared with \<open>processTestResults\<close>.
\<close>

definition isPassedOutcome :: "TestRecord \<Rightarrow> bool" where
  "isPassedOutcome r =
     (outcome (test r) = Some ''expected'' \<or> outcome (test r) = Some ''flaky'')"

definition isSkippedOutcome :: "TestRecord \<Rightarrow> bool" where
  "isSkippedOutcome r = (outcome (test r) = Some ''skipped'')"

definition isFailureOutcome :: "TestRecord \<Rightarrow> bool" where
  "isFailureOutcome r = (\<not> isPassedOutcome r \<and> \<not> isSkippedOutcome r)"

definition passedDurationsOf :: "TestRecord \<Rightarrow> rat list" where
  "passedDurationsOf r = map duration (filter (\<lambda>a. status a = Passed) (attempts r))"

text \<open>The failure of a record of the failure bucket, built from its last attempt.\<close>

definition failureOf :: "TestRecord \<Rightarrow> TestFailure" where
  "failureOf r =
     (if outcome (test r) = Some ''unexpected'' then unexpectedFailure (test r) (last (attempts r))
      else erroredFailure (test r) (last (attempts r)))"

text \<open>
  The error a record makes the loop throw, if any: a record of the passed bucket must not
  have more passed attempts than \<open>push\<close> takes arguments, a record of the failure
  bucket needs a last attempt. The loop throws the error of the first such record.
\<close>

definition recordError :: "Engine \<Rightarrow> TestRecord \<Rightarrow> error option" where
  "recordError eng r =
     (if isPassedOutcome r then
        (if length (passedDurationsOf r) > pushArguments eng then Some RangeError else None)
      else if isSkippedOutcome r then None
      else if attempts r = [] then Some TypeError
      else None)"

fun firstError :: "Engine \<Rightarrow> TestRecord list \<Rightarrow> error option" where
  "firstError eng [] = None"
| "firstError eng (r # rs) =
     (case recordError eng r of Some e \<Rightarrow> Some e | None \<Rightarrow> firstError eng rs)"

definition aggregateFrom :: "Results \<Rightarrow> TestRecord list \<Rightarrow> Results" where
  "aggregateFrom acc rs =
     acc\<lparr>testCount_r := testCount_r acc + int (length rs),
         passedCount_r := passedCount_r acc + int (length (filter isPassedOutcome rs)),
         skippedCount_r := skippedCount_r acc + int (length (filter isSkippedOutcome rs)),
         failures_r := failures_r acc @ map failureOf (filter isFailureOutcome rs),
         passedDurations_r :=
           passedDurations_r acc @ concat (map passedDurationsOf (filter isPassedOutcome rs))\<rparr>"

definition aggregate :: "TestRecord list \<Rightarrow> Results" where
  "aggregate rs =
     \<lparr>passedCount_r = int (length (filter isPassedOutcome rs)),
      testCount_r = int (length rs),
      skippedCount_r = int (length (filter isSkippedOutcome rs)),
      failedCount_r = int (length (filter isFailureOutcome rs)),
      failures_r = map failureOf (filter isFailureOutcome rs),
      passedDurations_r = concat (map passedDurationsOf (filter isPassedOutcome rs))\<rparr>"

section \<open>The objects \<open>onTestEnd\<close> builds\<close>

text \<open>
  Names for the three object literals of \<open>onTestEnd\<close>: the attempt it appends, the
  details it stores at the first attempt of a title, and the failure it hands to the file
  handler.
\<close>

definition newAttempt :: "TestResult \<Rightarrow> AttemptInfo" where
  "newAttempt result =
     \<lparr>status = status_tr result, duration = duration_tr result / 1000,
      errors = map (\<lambda>e. \<lparr>message = orElse (message_e e) ''No error message'', stack = stack_e e\<rparr>)
                 (errors_tr result)\<rparr>"

definition newDetails :: "(TestCase \<Rightarrow> string) \<Rightarrow> TestCase \<Rightarrow> TestCaseDetails" where
  "newDetails g t =
     \<lparr>testId = Some (id_c t), testTitle = title t,
      suiteTitle = orElse (parentTitle t) ''Unknown Suite'',
      testFile = map_option file_l (location_c t), location = location_c t,
      status_t = Some (outcomeToStatus (outcome_c t)), outcome = Some (outcome_c t),
      owningTeam = Some (g t)\<rparr>"

definition provisionalFailure :: "(TestCase \<Rightarrow> string) \<Rightarrow> TestCase \<Rightarrow> TestResult \<Rightarrow> TestFailure" where
  "provisionalFailure g t result =
     \<lparr>testId_f = Some (id_c t),
      testTitle_f = title t,
      suiteTitle_f = orElse (parentTitle t) ''Unknown Suite'',
      owningTeam_f = g t,
      errorMessage = orElse (Option.bind (first (errors_tr result)) message_e) ''Unknown error'',
      errorStack = orElse (Option.bind (first (errors_tr result)) stack_e) [],
      duration_f = duration_tr result / 1000,
      isTimeout = (status_tr result = TimedOut),
      errorCategory =
        categorizeError (orElse (Option.bind (first (errors_tr result)) message_e) ''Unknown error''),
      testFile_f = map_option file_l (location_c t),
      location_f = location_c t\<rparr>"

section \<open>Reading the recorded calls\<close>

fun lastRunOf :: "Effect \<Rightarrow> LastRunData option" where
  "lastRunOf (WriteLastRun d) = Some d"
| "lastRunOf _ = None"

fun summaryOf :: "Effect \<Rightarrow> TestSummary option" where
  "summaryOf (WriteSummary s cases) = Some s"
| "summaryOf _ = None"

text \<open>The last-run records and the summaries written, in order.\<close>

definition lastRunWrites :: "Effect list \<Rightarrow> LastRunData list" where
  "lastRunWrites es = List.map_filter lastRunOf es"

definition summaryWrites :: "Effect list \<Rightarrow> TestSummary list" where
  "summaryWrites es = List.map_filter summaryOf es"

text \<open>Every record of the store has an attempt.\<close>

definition attemptsNonEmpty :: "TestRecord jsmap \<Rightarrow> bool" where
  "attemptsNonEmpty recs = list_all (\<lambda>r. attempts r \<noteq> []) (map_values recs)"

text \<open>
  The spreads of a run fit the engine: no record of the passed bucket has more passed
  attempts than \<open>push\<close> takes arguments, and all passed durations together with the
  \<open>0\<close> are not more than \<open>Math.max\<close> takes.
\<close>

definition pushesFit :: "Engine \<Rightarrow> TestRecord jsmap \<Rightarrow> bool" where
  "pushesFit eng recs =
     list_all (\<lambda>r. length (passedDurationsOf r) \<le> pushArguments eng)
       (filter isPassedOutcome (map_values recs))"

definition maxFits :: "Engine \<Rightarrow> TestRecord jsmap \<Rightarrow> bool" where
  "maxFits eng recs =
     (length (concat (map passedDurationsOf (filter isPassedOutcome (map_values recs)))) + 1
        \<le> maxArguments eng)"

text \<open>
  The outcome a runner reports when a test's first attempt ends. A test is flaky only
  after a failed and a passed attempt, so a record, created at the first attempt of its
  title, never captures \<open>flaky\<close>.
\<close>

definition atFirstAttempt :: "string \<Rightarrow> bool" where
  "atFirstAttempt oc = (oc = ''expected'' \<or> oc = ''unexpected'' \<or> oc = ''skipped'')"

definition outcomesAtCreation :: "TestRecord jsmap \<Rightarrow> bool" where
  "outcomesAtCreation recs =
     list_all (\<lambda>r. case outcome (test r) of None \<Rightarrow> False | Some oc \<Rightarrow> atFirstAttempt oc)
       (map_values recs)"

text \<open>The coarse status of a record is the one \<open>outcomeToStatus\<close> gives its outcome.\<close>

definition statusFromOutcome :: "TestRecord jsmap \<Rightarrow> bool" where
  "statusFromOutcome recs =
     list_all (\<lambda>r. status_t (test r) = map_option outcomeToStatus (outcome (test r))
                    \<and> outcome (test r) \<noteq> None)
       (map_values recs)"

section \<open>Scenarios\<close>

text \<open>Concrete runs, used to evaluate the reporter.\<close>

definition defaultConfig :: ReporterConfig where
  "defaultConfig = \<lparr>maxSlowTestsToShow = 3, showStackTrace = True, generateFix = False\<rparr>"

text \<open>An engine whose two calls take a hundred thousand arguments.\<close>

definition exampleEngine :: Engine where
  "exampleEngine = \<lparr>pushArguments = 100000, maxArguments = 100000\<rparr>"

definition localEnv :: EndEnv where
  "localEnv = \<lparr>totalTimeDisplay_e = ''6.18s'', buildInfo_e = None, lastRunWriteFails = False\<rparr>"

definition unknownTeam :: "TestCase \<Rightarrow> string" where
  "unknownTeam t = ''Unknown''"

definition checkout :: "string \<Rightarrow> TestCase" where
  "checkout oc =
     \<lparr>id_c = ''id-1'', title = ''checkout'', parentTitle = Some ''shop'', location_c = None,
      outcome_c = oc\<rparr>"

definition login :: TestCase where
  "login =
     \<lparr>id_c = ''id-2'', title = ''login'', parentTitle = Some ''shop'', location_c = None,
      outcome_c = ''expected''\<rparr>"

definition cleanup :: TestCase where
  "cleanup =
     \<lparr>id_c = ''id-3'', title = ''cleanup'', parentTitle = None, location_c = None,
      outcome_c = ''skipped''\<rparr>"

definition passedIn :: "rat \<Rightarrow> nat \<Rightarrow> TestResult" where
  "passedIn ms n = \<lparr>status_tr = Passed, duration_tr = ms, errors_tr = [], retry = n\<rparr>"

definition skippedResult :: TestResult where
  "skippedResult = \<lparr>status_tr = Skipped, duration_tr = 0, errors_tr = [], retry = 0\<rparr>"

definition endedWith :: "Status \<Rightarrow> string \<Rightarrow> TestResult" where
  "endedWith s m =
     \<lparr>status_tr = s, duration_tr = 5000,
      errors_tr = [\<lparr>message_e = Some m, stack_e = Some ''at step 1''\<rparr>,
                   \<lparr>message_e = None, stack_e = Some ''at step 2''\<rparr>],
      retry = 0\<rparr>"

text \<open>One test, one passed attempt of 1.23 s.\<close>

definition scenarioA :: Reporter where
  "scenarioA =
     runEvents unknownTeam [TestEnd (checkout ''expected'') (passedIn 1230 0)]
       (newReporter defaultConfig)"

text \<open>One unexpected test whose only attempt timed out with a network message.\<close>

definition scenarioC :: Reporter where
  "scenarioC =
     runEvents unknownTeam [TestEnd (checkout ''unexpected'') (endedWith TimedOut ''Network status=500'')]
       (newReporter defaultConfig)"

text \<open>One unexpected test whose only attempt timed out with a timeout message.\<close>

definition scenarioTimeout :: Reporter where
  "scenarioTimeout =
     runEvents unknownTeam
       [TestEnd (checkout ''unexpected'') (endedWith TimedOut ''Timeout of 5000ms exceeded'')]
       (newReporter defaultConfig)"

text \<open>A passed, a failed and a skipped test.\<close>

definition scenarioMixed :: Reporter where
  "scenarioMixed =
     runEvents unknownTeam
       [TestEnd login (passedIn 800 0),
        TestEnd (checkout ''unexpected'') (endedWith Failed ''expect(received).toBe(expected)''),
        TestEnd cleanup skippedResult]
       (newReporter defaultConfig)"

text \<open>
  One passing test run \<open>n\<close> times, as with the runner's \<open>--repeat-each\<close>: every
  repetition is a test of its own, with its own id, that passes at its first attempt; the
  repetitions have one title, so one record collects all the attempts.
\<close>

definition repetition :: "nat \<Rightarrow> TestCase" where
  "repetition i =
     \<lparr>id_c = ''id-1-'' @ replicate i (CHR ''i''), title = ''checkout'', parentTitle = Some ''shop'',
      location_c = None, outcome_c = ''expected''\<rparr>"

definition repeatedRun :: "nat \<Rightarrow> Reporter" where
  "repeatedRun n =
     runEvents unknownTeam (map (\<lambda>i. TestEnd (repetition i) (passedIn 1230 0)) [0..<n])
       (newReporter defaultConfig)"

text \<open>Three passed tests, the first and the third equally slow.\<close>

definition search :: TestCase where
  "search =
     \<lparr>id_c = ''id-4'', title = ''search'', parentTitle = Some ''shop'', location_c = None,
      outcome_c = ''expected''\<rparr>"


text \<open>The first record of a store.\<close>

definition firstRecord :: "Reporter \<Rightarrow> TestRecord" where
  "firstRecord st = snd (hd (testRecords st))"

text \<open>The object \<open>saveLastRunStatus\<close> writes at the end of a run with results \<open>res\<close>.\<close>

definition lastRunDataOf :: "Reporter \<Rightarrow> Results \<Rightarrow> LastRunData" where
  "lastRunDataOf st res =
     \<lparr>status_l = (if length (failures_r res) > 0 then ''failed'' else ''passed''),
      failedTests = map (\<lambda>r. orElse (testId (test r)) [])
                      (filter (\<lambda>r. status_t (test r) = Some ''failed'') (map_values (testRecords st)))\<rparr>"

section \<open>Substring containment\<close>

lemma startsWith_prefix: "startsWith s p = prefix p s"
  by (induction s p rule: startsWith.induct) auto

text \<open>\<open>includes_str\<close> is containment of a contiguous substring.\<close>

lemma includes_str_iff: "includes_str s p \<longleftrightarrow> (\<exists>a b. s = a @ p @ b)"
proof (induction s)
  case Nil
  then show ?case by auto
next
  case (Cons c cs)
  show ?case
  proof
    assume "includes_str (c # cs) p"
    then consider "startsWith (c # cs) p" | "includes_str cs p" by auto
    then show "\<exists>a b. c # cs = a @ p @ b"
    proof cases
      case 1
      then obtain b where "c # cs = p @ b" by (auto simp: startsWith_prefix prefix_def)
      then have "c # cs = [] @ p @ b" by simp
      then show ?thesis by blast
    next
      case 2
      then obtain a b where "cs = a @ p @ b" using Cons.IH by blast
      then have "c # cs = (c # a) @ p @ b" by simp
      then show ?thesis by blast
    qed
  next
    assume "\<exists>a b. c # cs = a @ p @ b"
    then obtain a b where ab: "c # cs = a @ p @ b" by blast
    show "includes_str (c # cs) p"
    proof (cases a)
      case Nil
      then have "prefix p (c # cs)" using ab by (simp add: prefix_def)
      then show ?thesis by (simp add: startsWith_prefix)
    next
      case (Cons x a')
      then have "cs = a' @ p @ b" using ab by simp
      then have "includes_str cs p" using Cons.IH by blast
      then show ?thesis by simp
    qed
  qed
qed

section \<open>The failure classifier\<close>

text \<open>
  C6: \<open>categorizeError\<close> is a function of the message alone and computes the ordered,
  first-match-wins evaluation of the nine substring rules with \<open>Unknown\<close> as the tenth:
  it agrees with \<open>classify\<close> on every message. A message matching rule 2 and rule 3
  (\<open>selector timed out\<close>) is \<open>Timeout/DelayedElement\<close>; containment is case-sensitive
  (\<open>selector TIMED OUT\<close> only matches rule 3); a message containing none of the
  patterns is \<open>Unknown\<close>.
\<close>

theorem categorizeError_first_match:
  "categorizeError m = classify m
   \<and> categorizeError ''selector timed out'' = ''Timeout/DelayedElement''
   \<and> categorizeError ''selector TIMED OUT'' = ''SelectorChanged''
   \<and> (\<not> list_ex (\<lambda>rule. list_ex (includes_str m) (fst rule)) classifyRules
        \<longrightarrow> categorizeError m = ''Unknown'')"
proof (intro conjI impI)
  show "categorizeError m = classify m"
    by (simp add: categorizeError_def classify_def classifyRules_def)
  show "categorizeError ''selector timed out'' = ''Timeout/DelayedElement''"
    by (simp add: categorizeError_def)
  show "categorizeError ''selector TIMED OUT'' = ''SelectorChanged''"
    by (simp add: categorizeError_def)
  assume "\<not> list_ex (\<lambda>rule. list_ex (includes_str m) (fst rule)) classifyRules"
  then show "categorizeError m = ''Unknown''"
    by (simp add: categorizeError_def classifyRules_def)
qed

theorem categorizeError_first_match_witness:
  "\<not> list_ex (\<lambda>rule. list_ex (includes_str ''boom'') (fst rule)) classifyRules
   \<and> categorizeError ''boom'' = ''Unknown''
   \<and> categorizeError ''boom'' = classify ''boom''"
proof -
  have h: "\<not> list_ex (\<lambda>rule. list_ex (includes_str ''boom'') (fst rule)) classifyRules"
    by (simp add: classifyRules_def)
  from categorizeError_first_match [of "''boom''"] h show ?thesis by blast
qed

section \<open>Aggregation: the loop and its closed form\<close>

text \<open>
  One iteration either throws, when a record of the passed bucket has too many passed
  attempts for \<open>push\<close> or a record of the failure bucket has no attempt, or adds the
  record to its bucket; so the loop throws the first such error or computes
  \<open>aggregateFrom\<close>.
\<close>

lemma processRecord_passed:
  "isPassedOutcome r \<Longrightarrow>
     processRecord eng acc r =
       (if length (passedDurationsOf r) > pushArguments eng then Inl RangeError
        else Inr (aggregateFrom acc [r]))"
  by (auto simp: processRecord_def aggregateFrom_def isPassedOutcome_def isSkippedOutcome_def
      isFailureOutcome_def passedDurationsOf_def Let_def)

lemma processRecord_skipped:
  "isSkippedOutcome r \<Longrightarrow> processRecord eng acc r = Inr (aggregateFrom acc [r])"
  by (auto simp: processRecord_def aggregateFrom_def isPassedOutcome_def isSkippedOutcome_def
      isFailureOutcome_def passedDurationsOf_def Let_def)

lemma processRecord_failure:
  "isFailureOutcome r \<Longrightarrow> attempts r \<noteq> [] \<Longrightarrow>
     processRecord eng acc r = Inr (aggregateFrom acc [r])"
  by (auto simp: processRecord_def aggregateFrom_def isPassedOutcome_def isSkippedOutcome_def
      isFailureOutcome_def failureOf_def finalAttemptOf_def Let_def)

lemma processRecord_throws:
  "isFailureOutcome r \<Longrightarrow> attempts r = [] \<Longrightarrow> processRecord eng acc r = Inl TypeError"
  by (auto simp: processRecord_def isPassedOutcome_def isSkippedOutcome_def
      isFailureOutcome_def finalAttemptOf_def Let_def)

lemma processRecord_eq:
  "processRecord eng acc r =
     (case recordError eng r of Some e \<Rightarrow> Inl e | None \<Rightarrow> Inr (aggregateFrom acc [r]))"
proof (cases "isPassedOutcome r")
  case True
  then show ?thesis by (simp add: processRecord_passed recordError_def)
next
  case np: False
  show ?thesis
  proof (cases "isSkippedOutcome r")
    case True
    with np show ?thesis by (simp add: processRecord_skipped recordError_def)
  next
    case False
    with np have f: "isFailureOutcome r" by (simp add: isFailureOutcome_def)
    show ?thesis
    proof (cases "attempts r = []")
      case True
      with f np False show ?thesis by (simp add: processRecord_throws recordError_def)
    next
      case False
      with f np \<open>\<not> isSkippedOutcome r\<close> show ?thesis
        by (simp add: processRecord_failure recordError_def)
    qed
  qed
qed

lemma aggregateFrom_Cons: "aggregateFrom (aggregateFrom acc [r]) rs = aggregateFrom acc (r # rs)"
  by (simp add: aggregateFrom_def)

lemma aggregateFrom_Nil: "aggregateFrom acc [] = acc"
  by (simp add: aggregateFrom_def)

lemma processAll_eq:
  "processAll eng acc rs =
     (case firstError eng rs of Some e \<Rightarrow> Inl e | None \<Rightarrow> Inr (aggregateFrom acc rs))"
proof (induction rs arbitrary: acc)
  case Nil
  show ?case by (simp add: aggregateFrom_Nil)
next
  case (Cons r rs)
  show ?case
    by (simp add: processRecord_eq Cons.IH aggregateFrom_Cons split: option.splits)
qed

lemma processTestResults_eq:
  "processTestResults eng recs =
     (case firstError eng (map_values recs) of
        Some e \<Rightarrow> Inl e
      | None \<Rightarrow> Inr (aggregate (map_values recs)))"
  by (simp add: processTestResults_def processAll_eq aggregateFrom_def aggregate_def initResults_def
      split: option.splits)

text \<open>Whenever result processing returns, it returns the aggregate of the buckets.\<close>

lemma processTestResults_returns:
  "processTestResults eng recs = Inr res \<Longrightarrow> res = aggregate (map_values recs)"
  by (simp add: processTestResults_eq split: option.splits)

lemma firstError_None_iff:
  "firstError eng rs = None \<longleftrightarrow> list_all (\<lambda>r. recordError eng r = None) rs"
  by (induction rs) (auto split: option.splits)

lemma firstError_fits:
  assumes "attemptsNonEmpty recs" and "pushesFit eng recs"
  shows "firstError eng (map_values recs) = None"
proof -
  have "recordError eng r = None" if "r \<in> set (map_values recs)" for r
  proof -
    from that assms(1) have a: "attempts r \<noteq> []"
      by (simp add: attemptsNonEmpty_def list_all_iff)
    from that assms(2) have "isPassedOutcome r \<Longrightarrow> length (passedDurationsOf r) \<le> pushArguments eng"
      by (simp add: pushesFit_def list_all_iff)
    with a show ?thesis by (auto simp: recordError_def)
  qed
  then show ?thesis by (simp add: firstError_None_iff list_all_iff)
qed

lemma processTestResults_total:
  "attemptsNonEmpty recs \<Longrightarrow> pushesFit eng recs \<Longrightarrow>
     processTestResults eng recs = Inr (aggregate (map_values recs))"
  by (simp add: processTestResults_eq firstError_fits)

lemma bucket_lengths:
  "length (filter isPassedOutcome rs) + length (filter isSkippedOutcome rs)
     + length (filter isFailureOutcome rs) = length rs"
  by (induction rs) (auto simp: isFailureOutcome_def isPassedOutcome_def isSkippedOutcome_def)

lemma aggregate_testCount: "testCount_r (aggregate rs) = int (length rs)"
  by (simp add: aggregate_def)

lemma map_values_append: "map_values (xs @ ys) = map_values xs @ map_values ys"
  by (simp add: map_values_def)

lemma map_values_Cons: "map_values ((k, r) # ys) = r # map_values ys"
  by (simp add: map_values_def)

lemma isPassed_not_others: "isPassedOutcome r \<Longrightarrow> \<not> isSkippedOutcome r \<and> \<not> isFailureOutcome r"
  by (auto simp: isPassedOutcome_def isSkippedOutcome_def isFailureOutcome_def)

section \<open>The store\<close>

lemma map_get_map_set: "map_get k (map_set k v m) = Some v"
  by (induction m) (auto simp: map_get_def)

lemma map_has_iff: "map_has k m \<longleftrightarrow> (\<exists>v. map_get k m = Some v)"
  by (simp add: map_has_def map_get_def)

lemma map_get_in_values: "map_get k m = Some v \<Longrightarrow> v \<in> set (map_values m)"
  by (auto simp: map_get_def map_values_def dest: map_of_SomeD intro: rev_image_eqI)

lemma list_all_map_set:
  "P v \<Longrightarrow> list_all P (map_values m) \<Longrightarrow> list_all P (map_values (map_set k v m))"
  by (induction m) (auto simp: map_values_def)

lemma map_set_twice: "map_set k v (map_set k w m) = map_set k v m"
  by (induction m) auto

lemma map_set_not_Nil: "map_set k v m \<noteq> []"
  by (cases m) auto

section \<open>The reporter's handlers\<close>

lemma emit_simps:
  "config (emit es st) = config st"
  "testRecords (emit es st) = testRecords st"
  "nonTestErrors (emit es st) = nonTestErrors st"
  "hasInterruptedTests (emit es st) = hasInterruptedTests st"
  "exitCode (emit es st) = exitCode st"
  "effects (emit es st) = effects st @ es"
  by (simp_all add: emit_def)

lemma newReporter_simps:
  "testRecords (newReporter c) = []" "effects (newReporter c) = []" "config (newReporter c) = c"
  "nonTestErrors (newReporter c) = []" "hasInterruptedTests (newReporter c) = False"
  "exitCode (newReporter c) = None"
  by (simp_all add: newReporter_def)

lemma saveLastRunStatus_simps:
  "config (saveLastRunStatus w h st) = config st"
  "testRecords (saveLastRunStatus w h st) = testRecords st"
  "nonTestErrors (saveLastRunStatus w h st) = nonTestErrors st"
  "hasInterruptedTests (saveLastRunStatus w h st) = hasInterruptedTests st"
  "exitCode (saveLastRunStatus w h st) = exitCode st"
  by (simp_all add: saveLastRunStatus_def Let_def emit_simps)

lemma onTestEnd_testRecords:
  "testRecords (onTestEnd g t result st) =
     (case map_get (title t) (testRecords st) of
        Some r \<Rightarrow> map_set (title t) (r\<lparr>attempts := attempts r @ [newAttempt result]\<rparr>) (testRecords st)
      | None \<Rightarrow> map_set (title t) \<lparr>test = newDetails g t, attempts = [newAttempt result]\<rparr>
                  (testRecords st))"
  by (auto simp: onTestEnd_def Let_def emit_simps map_has_iff map_get_map_set newAttempt_def
      newDetails_def map_set_twice split: option.splits)

lemma onTestEnd_not_empty: "testRecords (onTestEnd g t result st) \<noteq> []"
  by (simp add: onTestEnd_testRecords map_set_not_Nil split: option.splits)

lemma onTestEnd_effects:
  "effects (onTestEnd g t result st) =
     effects st
     @ (if status_tr result = Failed \<or> status_tr result = TimedOut
        then [AddFailure (provisionalFailure g t result)] else [])
     @ [Console (TestOutcomeLine (title t) (status_tr result) (retry result) (duration_tr result / 1000))]"
  by (simp add: onTestEnd_def Let_def emit_simps provisionalFailure_def split: option.splits)

lemma onTestEnd_other:
  "config (onTestEnd g t result st) = config st"
  "nonTestErrors (onTestEnd g t result st) = nonTestErrors st"
  "exitCode (onTestEnd g t result st) = exitCode st"
  "hasInterruptedTests (onTestEnd g t result st) =
     (hasInterruptedTests st \<or> status_tr result = Interrupted)"
  by (simp_all add: onTestEnd_def Let_def emit_simps split: option.splits)

lemma onError_testRecords: "testRecords (onError e st) = testRecords st"
  by (simp add: onError_def Let_def emit_simps)

lemma runEvents_snoc: "runEvents g (evs @ [ev]) st = handle g ev (runEvents g evs st)"
  by (simp add: runEvents_def)

text \<open>
  Every store the handlers build has an attempt in each record, and the coarse status
  of each record is the one computed from its outcome.
\<close>

lemma onTestEnd_attemptsNonEmpty:
  assumes "attemptsNonEmpty (testRecords st)"
  shows "attemptsNonEmpty (testRecords (onTestEnd g t result st))"
  using assms
  by (auto simp: onTestEnd_testRecords attemptsNonEmpty_def intro!: list_all_map_set
      split: option.splits)

lemma onTestEnd_statusFromOutcome:
  assumes "statusFromOutcome (testRecords st)"
  shows "statusFromOutcome (testRecords (onTestEnd g t result st))"
proof (cases "map_get (title t) (testRecords st)")
  case None
  then show ?thesis using assms
    by (auto simp: onTestEnd_testRecords statusFromOutcome_def newDetails_def intro!: list_all_map_set)
next
  case (Some r)
  then have "r \<in> set (map_values (testRecords st))" by (rule map_get_in_values)
  then have "status_t (test r) = map_option outcomeToStatus (outcome (test r)) \<and> outcome (test r) \<noteq> None"
    using assms by (auto simp: statusFromOutcome_def list_all_iff)
  then show ?thesis using assms Some
    by (auto simp: onTestEnd_testRecords statusFromOutcome_def intro!: list_all_map_set)
qed

lemma runEvents_invariants:
  "attemptsNonEmpty (testRecords (runEvents g evs (newReporter c)))
   \<and> statusFromOutcome (testRecords (runEvents g evs (newReporter c)))"
proof (induction evs rule: rev_induct)
  case Nil
  show ?case
    by (simp add: runEvents_def newReporter_def attemptsNonEmpty_def statusFromOutcome_def map_values_def)
next
  case (snoc ev evs)
  then show ?case
    by (cases ev)
       (simp_all add: runEvents_snoc onTestEnd_attemptsNonEmpty onTestEnd_statusFromOutcome
          onError_testRecords)
qed

lemma onTestEnd_outcomesAtCreation:
  assumes "outcomesAtCreation (testRecords st)"
    and "map_has (title t) (testRecords st) \<or> atFirstAttempt (outcome_c t)"
  shows "outcomesAtCreation (testRecords (onTestEnd g t result st))"
proof (cases "map_get (title t) (testRecords st)")
  case None
  then have "atFirstAttempt (outcome_c t)" using assms(2) by (simp add: map_has_iff)
  then show ?thesis using assms(1) None
    by (auto simp: onTestEnd_testRecords outcomesAtCreation_def newDetails_def intro!: list_all_map_set)
next
  case (Some r)
  then have "r \<in> set (map_values (testRecords st))" by (rule map_get_in_values)
  then have "case outcome (test r) of None \<Rightarrow> False | Some oc \<Rightarrow> atFirstAttempt oc"
    using assms(1) by (auto simp: outcomesAtCreation_def list_all_iff)
  then show ?thesis using assms(1) Some
    by (auto simp: onTestEnd_testRecords outcomesAtCreation_def intro!: list_all_map_set)
qed

section \<open>The recorded calls of \<open>onEnd\<close>\<close>

lemma lastRunWrites_append: "lastRunWrites (xs @ ys) = lastRunWrites xs @ lastRunWrites ys"
  by (simp add: lastRunWrites_def List.map_filter_def)

lemma summaryWrites_append: "summaryWrites (xs @ ys) = summaryWrites xs @ summaryWrites ys"
  by (simp add: summaryWrites_def List.map_filter_def)

lemma lastRunWrites_simps:
  "lastRunWrites [] = []"
  "lastRunWrites (WriteLastRun d # es) = d # lastRunWrites es"
  "lastRunWrites (Console c # es) = lastRunWrites es"
  "lastRunWrites (AddFailure f # es) = lastRunWrites es"
  "lastRunWrites (GenerateFixSuggestions fs # es) = lastRunWrites es"
  "lastRunWrites (WriteSummary s cs # es) = lastRunWrites es"
  by (simp_all add: lastRunWrites_def List.map_filter_simps)

lemma summaryWrites_simps:
  "summaryWrites [] = []"
  "summaryWrites (WriteLastRun d # es) = summaryWrites es"
  "summaryWrites (Console c # es) = summaryWrites es"
  "summaryWrites (AddFailure f # es) = summaryWrites es"
  "summaryWrites (GenerateFixSuggestions fs # es) = summaryWrites es"
  "summaryWrites (WriteSummary s cs # es) = s # summaryWrites es"
  by (simp_all add: summaryWrites_def List.map_filter_simps)

lemma saveLastRunStatus_effects:
  "lastRunWrites (effects (saveLastRunStatus w h st)) =
     lastRunWrites (effects st) @
       [\<lparr>status_l = (if h then ''failed'' else ''passed''),
         failedTests = map (\<lambda>r. orElse (testId (test r)) [])
                         (filter (\<lambda>r. status_t (test r) = Some ''failed'') (map_values (testRecords st)))\<rparr>]"
  "summaryWrites (effects (saveLastRunStatus w h st)) = summaryWrites (effects st)"
  by (simp_all add: saveLastRunStatus_def Let_def emit_simps lastRunWrites_append lastRunWrites_simps
       summaryWrites_append summaryWrites_simps)

text \<open>
  The summary is built when all passed durations and the \<open>0\<close> fit into one call of
  \<open>Math.max\<close>.
\<close>

lemma makeSummary_fits:
  assumes "maxFits eng recs"
  shows "\<exists>s. makeSummary eng env st (aggregate (map_values recs)) = Inr s"
  using assms by (simp add: makeSummary_def maxFits_def aggregate_def)

lemma makeSummary_overflow:
  "maxArguments eng < length (passedDurations_r res) + 1 \<Longrightarrow> makeSummary eng env st res = Inl RangeError"
  by (simp add: makeSummary_def)

lemma onEnd_nonempty_exitCode:
  assumes "processTestResults eng (testRecords st) = Inr res" and "testCount_r res \<noteq> 0"
    and "makeSummary eng env st res = Inr s"
  shows "\<exists>st'. onEnd eng env st = Inr st' \<and>
           exitCode st' = Some (if length (failures_r res) > 0 \<or> length (nonTestErrors st) > 0
                                   \<or> hasInterruptedTests st then 1 else 0)"
  using assms
  by (simp add: onEnd_def Let_def emit_simps saveLastRunStatus_simps exitWithError_def exitWithSuccess_def)

lemma onEnd_nonempty_writes:
  assumes "processTestResults eng (testRecords st) = Inr res" and "testCount_r res \<noteq> 0"
    and "makeSummary eng env st res = Inr s"
  shows "\<exists>st'. onEnd eng env st = Inr st'
           \<and> lastRunWrites (effects st') = lastRunWrites (effects st) @ [lastRunDataOf st res]
           \<and> summaryWrites (effects st') = summaryWrites (effects st) @ [s]
           \<and> testRecords st' = testRecords st"
  using assms
  by (simp add: onEnd_def Let_def emit_simps saveLastRunStatus_simps saveLastRunStatus_effects
      exitWithError_def exitWithSuccess_def lastRunWrites_append lastRunWrites_simps
      summaryWrites_append summaryWrites_simps lastRunDataOf_def)

text \<open>
  \<open>onEnd\<close> throws exactly the errors of result processing and of the summary: where both
  return, \<open>onEnd\<close> returns.
\<close>

lemma onEnd_returns:
  assumes "testRecords st \<noteq> []" and "attemptsNonEmpty (testRecords st)"
    and "pushesFit eng (testRecords st)" and "maxFits eng (testRecords st)"
  shows "\<exists>s. processTestResults eng (testRecords st) = Inr (aggregate (map_values (testRecords st)))
           \<and> testCount_r (aggregate (map_values (testRecords st))) \<noteq> 0
           \<and> makeSummary eng env st (aggregate (map_values (testRecords st))) = Inr s"
proof -
  have 1: "processTestResults eng (testRecords st) = Inr (aggregate (map_values (testRecords st)))"
    using assms(2,3) by (rule processTestResults_total)
  have 2: "testCount_r (aggregate (map_values (testRecords st))) \<noteq> 0"
    using assms(1) by (simp add: aggregate_testCount map_values_def)
  from makeSummary_fits [OF assms(4)] 1 2 show ?thesis by blast
qed

lemma onEnd_rethrows:
  assumes "processTestResults eng (testRecords st) = Inl e"
  shows "onEnd eng env st = Inl e"
  using assms by (simp add: onEnd_def)

lemma onEnd_summary_overflow:
  assumes "processTestResults eng (testRecords st) = Inr res" and "testCount_r res \<noteq> 0"
    and "maxArguments eng < length (passedDurations_r res) + 1"
  shows "onEnd eng env st = Inl RangeError"
  using assms by (simp add: onEnd_def makeSummary_def)

lemma scenario_no_lastRun: "lastRunWrites (effects (runEvents g evs (newReporter c))) = []"
proof (induction evs rule: rev_induct)
  case Nil
  show ?case by (simp add: runEvents_def newReporter_simps lastRunWrites_simps)
next
  case (snoc ev evs)
  then show ?case
    by (cases ev)
       (simp_all add: runEvents_snoc onTestEnd_effects onError_def Let_def emit_simps
          lastRunWrites_append lastRunWrites_simps)
qed

lemma outcomeToStatus_failed:
  "outcomeToStatus oc = ''failed'' \<longleftrightarrow> oc = ''unexpected'' \<or> oc = ''flaky'' \<or> oc = ''failed''"
  by (auto simp: outcomeToStatus_def)

lemma statusFromOutcome_failed:
  assumes "statusFromOutcome recs"
  shows "filter (\<lambda>r. status_t (test r) = Some ''failed'') (map_values recs)
       = filter (\<lambda>r. outcome (test r) = Some ''unexpected'' \<or> outcome (test r) = Some ''flaky''
                     \<or> outcome (test r) = Some ''failed'') (map_values recs)"
proof (rule filter_cong [OF refl])
  fix r assume "r \<in> set (map_values recs)"
  then have "status_t (test r) = map_option outcomeToStatus (outcome (test r))" and "outcome (test r) \<noteq> None"
    using assms by (auto simp: statusFromOutcome_def list_all_iff)
  then show "(status_t (test r) = Some ''failed'') =
        (outcome (test r) = Some ''unexpected'' \<or> outcome (test r) = Some ''flaky''
                     \<or> outcome (test r) = Some ''failed'')"
    by (cases "outcome (test r)") (auto simp: outcomeToStatus_failed)
qed

lemma outcomesAtCreation_failed:
  assumes "statusFromOutcome recs" and "outcomesAtCreation recs"
  shows "filter (\<lambda>r. status_t (test r) = Some ''failed'') (map_values recs)
       = filter isFailureOutcome (map_values recs)"
proof (rule filter_cong [OF refl])
  fix r assume r: "r \<in> set (map_values recs)"
  then have s: "status_t (test r) = map_option outcomeToStatus (outcome (test r))"
    using assms(1) by (auto simp: statusFromOutcome_def list_all_iff)
  from r assms(2) obtain oc where oc: "outcome (test r) = Some oc" "atFirstAttempt oc"
    by (auto simp: outcomesAtCreation_def list_all_iff split: option.splits)
  then show "(status_t (test r) = Some ''failed'') = isFailureOutcome r"
    using s
    by (auto simp: atFirstAttempt_def isFailureOutcome_def isPassedOutcome_def isSkippedOutcome_def
        outcomeToStatus_def)
qed

lemma failureOf_testId: "testId_f (failureOf r) = testId (test r)"
  by (simp add: failureOf_def unexpectedFailure_def erroredFailure_def Let_def)

section \<open>Sorting\<close>









section \<open>The aggregation over the explicit store\<close>

text \<open>
  The heap model writes only into arrays it has created itself: whatever the heap, every
  cell allocated before the call is unchanged after it.
\<close>

lemma unchangedBelow_refl: "unchangedBelow h h"
  by (simp add: unchangedBelow_def)

lemma unchangedBelow_trans:
  "unchangedBelow h0 h1 \<Longrightarrow> unchangedBelow h1 h2 \<Longrightarrow> unchangedBelow h0 h2"
  by (auto simp: unchangedBelow_def)

lemma alloc_unchanged: "alloc c h = (a, h') \<Longrightarrow> unchangedBelow h h'"
  by (auto simp: alloc_def unchangedBelow_def)

lemma alloc_keeps: "unchangedBelow h0 h \<Longrightarrow> alloc c h = (a, h') \<Longrightarrow> unchangedBelow h0 h'"
  using alloc_unchanged unchangedBelow_trans by blast

lemma pushDurations_keeps:
  "unchangedBelow h0 h \<Longrightarrow> nxt h0 \<le> a \<Longrightarrow> pushDurations a ds h = Inr h' \<Longrightarrow> unchangedBelow h0 h'"
  by (auto simp: pushDurations_def unchangedBelow_def split: sum.splits)

lemma pushFailure_keeps:
  "unchangedBelow h0 h \<Longrightarrow> nxt h0 \<le> a \<Longrightarrow> pushFailure a f h = Inr h' \<Longrightarrow> unchangedBelow h0 h'"
  by (auto simp: pushFailure_def unchangedBelow_def split: sum.splits)

lemma processRecordH_keeps:
  assumes "unchangedBelow h0 h" and "nxt h0 \<le> failures_l ls" and "nxt h0 \<le> passedDurations_l ls"
    and "processRecordH eng ls r h = (res, h')"
  shows "unchangedBelow h0 h'
       \<and> (\<forall>ls'. res = Inr ls' \<longrightarrow> failures_l ls' = failures_l ls
                                \<and> passedDurations_l ls' = passedDurations_l ls)"
  using assms
  apply (auto simp: processRecordH_def Let_def
      split: sum.splits prod.splits option.splits if_splits)
       apply (meson alloc_keeps pushDurations_keeps pushFailure_keeps)+
  done

lemma processAllH_keeps:
  assumes "unchangedBelow h0 h" and "nxt h0 \<le> failures_l ls" and "nxt h0 \<le> passedDurations_l ls"
    and "processAllH eng ls rs h = (res, h')"
  shows "unchangedBelow h0 h'
       \<and> (\<forall>ls'. res = Inr ls' \<longrightarrow> failures_l ls' = failures_l ls
                                \<and> passedDurations_l ls' = passedDurations_l ls)"
  using assms
proof (induction rs arbitrary: ls h)
  case Nil
  then show ?case by auto
next
  case (Cons r rs)
  obtain res1 h1 where s: "processRecordH eng ls r h = (res1, h1)" by (cases "processRecordH eng ls r h")
  from processRecordH_keeps [OF Cons.prems(1,2,3) s]
  have k: "unchangedBelow h0 h1"
    and l: "\<forall>ls'. res1 = Inr ls' \<longrightarrow> failures_l ls' = failures_l ls
                                \<and> passedDurations_l ls' = passedDurations_l ls" by simp_all
  show ?case
  proof (cases res1)
    case (Inl e)
    with Cons.prems(4) s k show ?thesis by auto
  next
    case (Inr ls1)
    with l have f: "failures_l ls1 = failures_l ls" and p: "passedDurations_l ls1 = passedDurations_l ls"
      by simp_all
    from Cons.prems(4) s Inr have "processAllH eng ls1 rs h1 = (res, h')" by simp
    from Cons.IH [OF k _ _ this] Cons.prems(2,3) f p show ?thesis by simp
  qed
qed

lemma processTestResultsH_keeps:
  assumes "processTestResultsH eng m h = (res, h')"
  shows "unchangedBelow h h'"
proof -
  obtain a1 h1 where a1: "alloc (Failures []) h = (a1, h1)" by (cases "alloc (Failures []) h")
  obtain a2 h2 where a2: "alloc (Durations []) h1 = (a2, h2)" by (cases "alloc (Durations []) h1")
  have u2: "unchangedBelow h h2"
    using a1 a2 alloc_keeps unchangedBelow_refl by blast
  have n1: "nxt h \<le> a1" using a1 by (auto simp: alloc_def)
  have n2: "nxt h \<le> a2" using a1 a2 by (auto simp: alloc_def)
  let ?ls = "\<lparr>passedCount_l = 0, testCount_l = 0, skippedCount_l = 0,
                failures_l = a1, passedDurations_l = a2\<rparr>"
  show ?thesis
  proof (cases "readRecords h2 m")
    case (Inl e)
    with assms a1 a2 u2 show ?thesis by (simp add: processTestResultsH_def)
  next
    case (Inr kvs)
    obtain res3 h3 where s: "processAllH eng ?ls (map snd kvs) h2 = (res3, h3)"
      by (cases "processAllH eng ?ls (map snd kvs) h2")
    have "unchangedBelow h h3"
      using processAllH_keeps [OF u2 _ _ s] n1 n2 by simp
    moreover have "h' = h3"
      using assms a1 a2 Inr s
      by (auto simp: processTestResultsH_def split: sum.splits)
    ultimately show ?thesis by simp
  qed
qed

text \<open>
  On a heap that holds a store, the heap model computes what \<open>processTestResults\<close>
  computes on the store's value: the same error, or the same counts and lists.
\<close>

lemma wfRecord_reads:
  assumes "unchangedBelow h0 h" and "wfRecord h0 r"
  obtains as where "readAttempts h (attempts_h r) = Inr as"
    and "readAttempts h0 (attempts_h r) = Inr as"
    and "\<forall>a \<in> set as. \<exists>es. readErrors h (errors_h a) = Inr es \<and> readErrors h0 (errors_h a) = Inr es"
proof -
  from assms(2) obtain as where lt: "attempts_h r < nxt h0"
    and ra: "readAttempts h0 (attempts_h r) = Inr as" and all: "list_all (isErrorsAt h0) as"
    by (auto simp: wfRecord_def split: sum.splits)
  from assms(1) lt have "cells h (attempts_h r) = cells h0 (attempts_h r)"
    by (simp add: unchangedBelow_def)
  with ra have ra': "readAttempts h (attempts_h r) = Inr as" by (simp add: readAttempts_def)
  have "\<exists>es. readErrors h (errors_h a) = Inr es \<and> readErrors h0 (errors_h a) = Inr es"
    if "a \<in> set as" for a
  proof -
    from that all have e: "isErrorsAt h0 a" by (simp add: list_all_iff)
    then obtain es where "errors_h a < nxt h0" and r0: "readErrors h0 (errors_h a) = Inr es"
      by (auto simp: isErrorsAt_def split: sum.splits)
    with assms(1) have "cells h (errors_h a) = cells h0 (errors_h a)" by (simp add: unchangedBelow_def)
    with r0 show ?thesis by (simp add: readErrors_def)
  qed
  with ra ra' show ?thesis using that by blast
qed

lemma absAttempts_passed:
  "map duration (filter (\<lambda>a. status a = Passed) (map (absAttempt h0) as))
     = map duration_h (filter (\<lambda>a. status_h a = Passed) as)"
  by (induction as) (auto simp: absAttempt_def)

lemma processRecordH_simulates:
  assumes u: "unchangedBelow h0 h" and wf: "wfRecord h0 r" and ok: "localsOk h0 h ls"
    and run: "processRecordH eng ls r h = (res, h')"
  shows "case res of
           Inl e \<Rightarrow> processRecord eng (absLocals h ls) (absRecord h0 r) = Inl e
         | Inr ls' \<Rightarrow> localsOk h0 h' ls'
                      \<and> processRecord eng (absLocals h ls) (absRecord h0 r) = Inr (absLocals h' ls')"
proof -
  from wfRecord_reads [OF u wf] obtain as where
    ra: "readAttempts h (attempts_h r) = Inr as" and ra0: "readAttempts h0 (attempts_h r) = Inr as"
    and es: "\<forall>a \<in> set as. \<exists>es. readErrors h (errors_h a) = Inr es \<and> readErrors h0 (errors_h a) = Inr es"
    by blast
  have ar: "absRecord h0 r = \<lparr>test = test_h r, attempts = map (absAttempt h0) as\<rparr>"
    by (simp add: absRecord_def ra0)
  from ok obtain fs ds where
    c1: "cells h (failures_l ls) = Some (Failures fs)"
    and c2: "cells h (passedDurations_l ls) = Some (Durations ds)"
    and lt1: "failures_l ls < nxt h" and lt2: "passedDurations_l ls < nxt h"
    and ne: "failures_l ls \<noteq> passedDurations_l ls"
    and ge1: "nxt h0 \<le> failures_l ls" and ge2: "nxt h0 \<le> passedDurations_l ls"
    by (auto simp: localsOk_def)
  consider (passed) "outcome (test_h r) = Some ''expected'' \<or> outcome (test_h r) = Some ''flaky''"
    | (unexpected) "outcome (test_h r) = Some ''unexpected''"
    | (skipped) "outcome (test_h r) = Some ''skipped''"
    | (other) "outcome (test_h r) \<noteq> Some ''expected''" "outcome (test_h r) \<noteq> Some ''flaky''"
        "outcome (test_h r) \<noteq> Some ''unexpected''" "outcome (test_h r) \<noteq> Some ''skipped''"
    by blast
  then show ?thesis
  proof cases
    case passed
    have len: "length (filter (\<lambda>a. status a = Passed) (map (absAttempt h0) as))
                 = length (filter (\<lambda>a. status_h a = Passed) as)"
      using absAttempts_passed [of h0 as] by (metis length_map)
    have comp: "((\<lambda>a. status a = Passed) \<circ> absAttempt h0) = (\<lambda>a. status_h a = Passed)"
      by (auto simp: absAttempt_def fun_eq_iff)
    show ?thesis
    proof (cases "pushArguments eng < length (filter (\<lambda>a. status_h a = Passed) as)")
      case True
      with passed run ra show ?thesis
        by (auto simp: processRecordH_def processRecord_def Let_def alloc_def ar len comp)
    next
      case False
      with passed run ra c1 c2 lt1 lt2 ne ge1 ge2 show ?thesis
        by (auto simp: processRecordH_def processRecord_def Let_def alloc_def pushDurations_def
            readDurations_def readFailures_def localsOk_def absLocals_def ar absAttempts_passed len comp)
    qed
  next
    case skipped
    with run ra c1 c2 lt1 lt2 ne ge1 ge2 show ?thesis
      by (auto simp: processRecordH_def processRecord_def Let_def
          readDurations_def readFailures_def localsOk_def absLocals_def ar)
  next
    case unexpected
    show ?thesis
    proof (cases "as = []")
      case True
      with unexpected run ra show ?thesis
        by (auto simp: processRecordH_def processRecord_def Let_def ar finalAttemptOf_def)
    next
      case False
      then have "last as \<in> set as" by simp
      with es obtain el where e1: "readErrors h (errors_h (last as)) = Inr el"
        and e0: "readErrors h0 (errors_h (last as)) = Inr el" by blast
      have la: "last (map (absAttempt h0) as) =
                  \<lparr>status = status_h (last as), duration = duration_h (last as), errors = el\<rparr>"
        using False by (simp add: last_map absAttempt_def e0)
      from unexpected False run ra e1 c1 c2 lt1 lt2 ne ge1 ge2 show ?thesis
        by (auto simp: processRecordH_def processRecord_def Let_def alloc_def pushFailure_def
            readDurations_def readFailures_def localsOk_def absLocals_def ar finalAttemptOf_def la)
    qed
  next
    case other
    show ?thesis
    proof (cases "as = []")
      case True
      with other run ra show ?thesis
        by (auto simp: processRecordH_def processRecord_def Let_def ar finalAttemptOf_def)
    next
      case False
      have la: "erroredFailure (test_h r) (last (map (absAttempt h0) as)) =
                  erroredFailure (test_h r)
                    \<lparr>status = status_h (last as), duration = duration_h (last as), errors = []\<rparr>"
        using False by (simp add: last_map absAttempt_def erroredFailure_def)
      from other False run ra c1 c2 lt1 lt2 ne ge1 ge2 show ?thesis
        by (auto simp: processRecordH_def processRecord_def Let_def pushFailure_def
            readDurations_def readFailures_def localsOk_def absLocals_def ar finalAttemptOf_def la)
    qed
  qed
qed

lemma processAllH_simulates:
  assumes "unchangedBelow h0 h" and "list_all (wfRecord h0) rs" and "localsOk h0 h ls"
    and "processAllH eng ls rs h = (res, h')"
  shows "case res of
           Inl e \<Rightarrow> processAll eng (absLocals h ls) (map (absRecord h0) rs) = Inl e
         | Inr ls' \<Rightarrow> localsOk h0 h' ls'
                      \<and> processAll eng (absLocals h ls) (map (absRecord h0) rs) = Inr (absLocals h' ls')"
  using assms
proof (induction rs arbitrary: ls h)
  case Nil
  then show ?case by auto
next
  case (Cons r rs)
  obtain res1 h1 where s: "processRecordH eng ls r h = (res1, h1)" by (cases "processRecordH eng ls r h")
  from Cons.prems(2) have wr: "wfRecord h0 r" and wrs: "list_all (wfRecord h0) rs" by simp_all
  from Cons.prems(3) have ge: "nxt h0 \<le> failures_l ls" "nxt h0 \<le> passedDurations_l ls"
    by (simp_all add: localsOk_def)
  from processRecordH_keeps [OF Cons.prems(1) ge s] have u1: "unchangedBelow h0 h1" by simp
  note sim = processRecordH_simulates [OF Cons.prems(1) wr Cons.prems(3) s]
  show ?case
  proof (cases res1)
    case (Inl e)
    with sim Cons.prems(4) s show ?thesis by auto
  next
    case (Inr ls1)
    with sim have ok1: "localsOk h0 h1 ls1"
      and p1: "processRecord eng (absLocals h ls) (absRecord h0 r) = Inr (absLocals h1 ls1)" by simp_all
    from Cons.prems(4) s Inr have "processAllH eng ls1 rs h1 = (res, h')" by simp
    from Cons.IH [OF u1 wrs ok1 this] p1 show ?thesis by (cases res) simp_all
  qed
qed

lemma wfStore_unchanged:
  assumes "wfStore h m" and "unchangedBelow h h'"
  shows "wfStore h' m \<and> absStore h' m = absStore h m"
proof -
  from assms(1) obtain kvs where lt: "m < nxt h" and rr: "readRecords h m = Inr kvs"
    and all: "list_all (\<lambda>kv. wfRecord h (snd kv)) kvs"
    by (auto simp: wfStore_def split: sum.splits)
  from assms(2) lt have "cells h' m = cells h m" by (simp add: unchangedBelow_def)
  with rr have rr': "readRecords h' m = Inr kvs" by (simp add: readRecords_def)
  have le: "nxt h \<le> nxt h'" using assms(2) by (simp add: unchangedBelow_def)
  have rec: "wfRecord h' r \<and> absRecord h' r = absRecord h r" if w: "wfRecord h r" for r
  proof -
    from wfRecord_reads [OF assms(2) w] obtain as where
      ra': "readAttempts h' (attempts_h r) = Inr as" and ra: "readAttempts h (attempts_h r) = Inr as"
      and es: "\<forall>a \<in> set as. \<exists>es. readErrors h' (errors_h a) = Inr es \<and> readErrors h (errors_h a) = Inr es"
      by blast
    from w ra have lts: "attempts_h r < nxt h" and ia: "list_all (isErrorsAt h) as"
      by (simp_all add: wfRecord_def)
    have "isErrorsAt h' a \<and> absAttempt h' a = absAttempt h a" if "a \<in> set as" for a
    proof -
      from that es obtain el where "readErrors h' (errors_h a) = Inr el" "readErrors h (errors_h a) = Inr el"
        by blast
      moreover from that ia have "errors_h a < nxt h" by (simp add: list_all_iff isErrorsAt_def)
      ultimately show ?thesis using le by (simp add: isErrorsAt_def absAttempt_def)
    qed
    then have "list_all (isErrorsAt h') as" and "map (absAttempt h') as = map (absAttempt h) as"
      by (simp_all add: list_all_iff)
    with ra ra' lts le show ?thesis by (simp add: wfRecord_def absRecord_def)
  qed
  have "list_all (\<lambda>kv. wfRecord h' (snd kv)) kvs"
    using all rec by (simp add: list_all_iff)
  moreover have "map (\<lambda>kv. (fst kv, absRecord h' (snd kv))) kvs
                   = map (\<lambda>kv. (fst kv, absRecord h (snd kv))) kvs"
    using all rec by (simp add: list_all_iff)
  ultimately show ?thesis using lt le rr rr' by (simp add: wfStore_def absStore_def)
qed

lemma processTestResultsH_simulates:
  assumes wf: "wfStore h m" and run: "processTestResultsH eng m h = (res, h')"
  shows "viewResults h' res = processTestResults eng (absStore h m)"
proof -
  obtain a1 h1 where a1: "alloc (Failures []) h = (a1, h1)" by (cases "alloc (Failures []) h")
  obtain a2 h2 where a2: "alloc (Durations []) h1 = (a2, h2)" by (cases "alloc (Durations []) h1")
  let ?ls = "\<lparr>passedCount_l = 0, testCount_l = 0, skippedCount_l = 0,
                failures_l = a1, passedDurations_l = a2\<rparr>"
  have u2: "unchangedBelow h h2"
    using a1 a2 alloc_keeps unchangedBelow_refl by blast
  have ok: "localsOk h h2 ?ls"
    using a1 a2 by (auto simp: alloc_def localsOk_def)
  have init: "absLocals h2 ?ls = initResults"
    using a1 a2 by (auto simp: alloc_def absLocals_def initResults_def readFailures_def readDurations_def)
  from wf obtain kvs where lt: "m < nxt h" and rr: "readRecords h m = Inr kvs"
    and all: "list_all (\<lambda>kv. wfRecord h (snd kv)) kvs"
    by (auto simp: wfStore_def split: sum.splits)
  from u2 lt have "cells h2 m = cells h m" by (simp add: unchangedBelow_def)
  with rr have rr2: "readRecords h2 m = Inr kvs" by (simp add: readRecords_def)
  have vals: "map_values (absStore h m) = map (absRecord h) (map snd kvs)"
    by (simp add: absStore_def rr map_values_def comp_def)
  have wfs: "list_all (wfRecord h) (map snd kvs)"
    using all by (simp add: list_all_iff)
  obtain res3 h3 where s: "processAllH eng ?ls (map snd kvs) h2 = (res3, h3)"
    by (cases "processAllH eng ?ls (map snd kvs) h2")
  note sim = processAllH_simulates [OF u2 wfs ok s]
  show ?thesis
  proof (cases res3)
    case (Inl e)
    with sim init have "processAll eng initResults (map (absRecord h) (map snd kvs)) = Inl e" by simp
    moreover from run a1 a2 rr2 s Inl have "res = Inl e"
      by (auto simp: processTestResultsH_def)
    ultimately show ?thesis
      unfolding processTestResults_def vals by (simp add: viewResults_def)
  next
    case (Inr ls3)
    with sim init have ok3: "localsOk h h3 ls3"
      and p: "processAll eng initResults (map (absRecord h) (map snd kvs)) = Inr (absLocals h3 ls3)"
      by simp_all
    from ok3 obtain fs where fs: "readFailures h3 (failures_l ls3) = Inr fs"
      by (auto simp: localsOk_def readFailures_def)
    from run a1 a2 rr2 s Inr fs have
      "res = Inr \<lparr>passedCount_h = passedCount_l ls3, testCount_h = testCount_l ls3,
                  skippedCount_h = skippedCount_l ls3, failedCount_h = int (length fs),
                  failures_h = failures_l ls3, passedDurations_h = passedDurations_l ls3\<rparr>"
      and "h' = h3"
      by (auto simp: processTestResultsH_def)
    moreover have "processTestResults eng (absStore h m) =
        Inr ((absLocals h3 ls3)\<lparr>failedCount_r := int (length (failures_r (absLocals h3 ls3)))\<rparr>)"
      unfolding processTestResults_def vals p by simp
    ultimately show ?thesis
      by (simp add: viewResults_def absLocals_def fs)
  qed
qed

text \<open>The hypothesis of the two lemmas above can be met for every store value.\<close>

lemma isErrorsAt_unchanged:
  assumes "isErrorsAt h a" and "unchangedBelow h h'"
  shows "isErrorsAt h' a \<and> absAttempt h' a = absAttempt h a"
proof -
  from assms(1) have lt: "errors_h a < nxt h" by (simp add: isErrorsAt_def)
  with assms(2) have "cells h' (errors_h a) = cells h (errors_h a)" and "nxt h \<le> nxt h'"
    by (simp_all add: unchangedBelow_def)
  with assms(1) lt show ?thesis
    by (auto simp: isErrorsAt_def absAttempt_def readErrors_def)
qed

lemma wfRecord_unchanged:
  assumes "wfRecord h r" and "unchangedBelow h h'"
  shows "wfRecord h' r \<and> absRecord h' r = absRecord h r"
proof -
  from assms(1) obtain as where lt: "attempts_h r < nxt h"
    and ra: "readAttempts h (attempts_h r) = Inr as" and all: "list_all (isErrorsAt h) as"
    by (auto simp: wfRecord_def split: sum.splits)
  from assms(2) lt have "cells h' (attempts_h r) = cells h (attempts_h r)" and le: "nxt h \<le> nxt h'"
    by (simp_all add: unchangedBelow_def)
  with ra have ra': "readAttempts h' (attempts_h r) = Inr as" by (simp add: readAttempts_def)
  from all isErrorsAt_unchanged [OF _ assms(2)]
  have "list_all (isErrorsAt h') as" and "map (absAttempt h') as = map (absAttempt h) as"
    by (simp_all add: list_all_iff)
  with ra ra' lt le show ?thesis by (simp add: wfRecord_def absRecord_def)
qed

lemma storeAttempts_holds:
  assumes "storeAttempts as h = (ahs, h')"
  shows "unchangedBelow h h' \<and> list_all (isErrorsAt h') ahs \<and> map (absAttempt h') ahs = as"
  using assms
proof (induction as arbitrary: h ahs h')
  case Nil
  then show ?case by (simp add: unchangedBelow_refl)
next
  case (Cons a as)
  obtain e h1 where al: "alloc (Errors (errors a)) h = (e, h1)" by (cases "alloc (Errors (errors a)) h")
  obtain ahs1 h2 where st: "storeAttempts as h1 = (ahs1, h2)" by (cases "storeAttempts as h1")
  from Cons.prems al st have eq: "ahs = \<lparr>status_h = status a, duration_h = duration a, errors_h = e\<rparr> # ahs1"
    and h': "h' = h2" by simp_all
  from Cons.IH [OF st] have u12: "unchangedBelow h1 h2" and ia: "list_all (isErrorsAt h2) ahs1"
    and ab: "map (absAttempt h2) ahs1 = as" by simp_all
  let ?a = "\<lparr>status_h = status a, duration_h = duration a, errors_h = e\<rparr>"
  have "isErrorsAt h1 ?a" and "absAttempt h1 ?a = a"
    using al by (auto simp: alloc_def isErrorsAt_def absAttempt_def readErrors_def)
  with isErrorsAt_unchanged [OF _ u12] have "isErrorsAt h2 ?a" and "absAttempt h2 ?a = a" by simp_all
  moreover have "unchangedBelow h h2"
    using alloc_unchanged [OF al] u12 by (rule unchangedBelow_trans)
  ultimately show ?case using eq h' ia ab by simp
qed

lemma storeRecords_holds:
  assumes "storeRecords recs h = (kvs, h')"
  shows "unchangedBelow h h' \<and> list_all (\<lambda>kv. wfRecord h' (snd kv)) kvs
       \<and> map (\<lambda>kv. (fst kv, absRecord h' (snd kv))) kvs = recs"
  using assms
proof (induction recs arbitrary: h kvs h')
  case Nil
  then show ?case by (simp add: unchangedBelow_refl)
next
  case (Cons kr rs)
  obtain ahs h1 where sa: "storeAttempts (attempts (snd kr)) h = (ahs, h1)"
    by (cases "storeAttempts (attempts (snd kr)) h")
  obtain a h2 where al: "alloc (Attempts ahs) h1 = (a, h2)" by (cases "alloc (Attempts ahs) h1")
  obtain kvs1 h3 where sr: "storeRecords rs h2 = (kvs1, h3)" by (cases "storeRecords rs h2")
  let ?r = "\<lparr>test_h = test (snd kr), attempts_h = a\<rparr>"
  from Cons.prems sa al sr have eq: "kvs = (fst kr, ?r) # kvs1" and h': "h' = h3" by simp_all
  from storeAttempts_holds [OF sa] have u01: "unchangedBelow h h1"
    and ia: "list_all (isErrorsAt h1) ahs" and ab: "map (absAttempt h1) ahs = attempts (snd kr)"
    by simp_all
  have u12: "unchangedBelow h1 h2" using al by (rule alloc_unchanged)
  from ia isErrorsAt_unchanged [OF _ u12]
  have ia2: "list_all (isErrorsAt h2) ahs" and ab2: "map (absAttempt h2) ahs = map (absAttempt h1) ahs"
    by (simp_all add: list_all_iff)
  have w2: "wfRecord h2 ?r" and r2: "absRecord h2 ?r = snd kr"
    using al ia2 ab2 ab by (auto simp: alloc_def wfRecord_def absRecord_def readAttempts_def)
  from Cons.IH [OF sr] have u23: "unchangedBelow h2 h3"
    and wk: "list_all (\<lambda>kv. wfRecord h3 (snd kv)) kvs1"
    and ak: "map (\<lambda>kv. (fst kv, absRecord h3 (snd kv))) kvs1 = rs" by simp_all
  from wfRecord_unchanged [OF w2 u23] r2 have "wfRecord h3 ?r" and "absRecord h3 ?r = snd kr"
    by simp_all
  moreover have "unchangedBelow h h3"
    using u01 u12 u23 unchangedBelow_trans by blast
  ultimately show ?case using eq h' wk ak by simp
qed

lemma heapOf_holds:
  assumes "heapOf recs = (m, h)"
  shows "wfStore h m \<and> absStore h m = recs"
proof -
  obtain kvs h1 where sr: "storeRecords recs \<lparr>cells = Map.empty, nxt = 0\<rparr> = (kvs, h1)"
    by (cases "storeRecords recs \<lparr>cells = Map.empty, nxt = 0\<rparr>")
  with assms have al: "alloc (Records kvs) h1 = (m, h)" by (simp add: heapOf_def)
  from storeRecords_holds [OF sr] have wk: "list_all (\<lambda>kv. wfRecord h1 (snd kv)) kvs"
    and ak: "map (\<lambda>kv. (fst kv, absRecord h1 (snd kv))) kvs = recs" by simp_all
  have u: "unchangedBelow h1 h" using al by (rule alloc_unchanged)
  from wk wfRecord_unchanged [OF _ u]
  have "list_all (\<lambda>kv. wfRecord h (snd kv)) kvs"
    and "map (\<lambda>kv. (fst kv, absRecord h (snd kv))) kvs = map (\<lambda>kv. (fst kv, absRecord h1 (snd kv))) kvs"
    by (simp_all add: list_all_iff)
  moreover have "m < nxt h" and "readRecords h m = Inr kvs"
    using al by (auto simp: alloc_def readRecords_def)
  ultimately show ?thesis using ak by (simp add: wfStore_def absStore_def)
qed

section \<open>The scenarios, evaluated\<close>

lemmas scenario_defs =
  runEvents_def newReporter_simps onTestEnd_testRecords map_get_def newAttempt_def newDetails_def
  orElse_def outcomeToStatus_def unknownTeam_def checkout_def login_def cleanup_def search_def
  passedIn_def skippedResult_def endedWith_def

lemmas flags_defs = runEvents_def onTestEnd_other newReporter_simps passedIn_def endedWith_def
  skippedResult_def

lemma scenarioA_records:
  "testRecords scenarioA =
     [(''checkout'',
       \<lparr>test = \<lparr>testId = Some ''id-1'', testTitle = ''checkout'', suiteTitle = ''shop'',
                 testFile = None, location = None, status_t = Some ''passed'',
                 outcome = Some ''expected'', owningTeam = Some ''Unknown''\<rparr>,
        attempts = [\<lparr>status = Passed, duration = 123 / 100, errors = []\<rparr>]\<rparr>)]"
  by (simp add: scenarioA_def scenario_defs)

lemma scenarioA_flags: "nonTestErrors scenarioA = [] \<and> \<not> hasInterruptedTests scenarioA"
  by (simp add: scenarioA_def flags_defs)

lemma scenarioC_records:
  "testRecords scenarioC =
     [(''checkout'',
       \<lparr>test = \<lparr>testId = Some ''id-1'', testTitle = ''checkout'', suiteTitle = ''shop'',
                 testFile = None, location = None, status_t = Some ''failed'',
                 outcome = Some ''unexpected'', owningTeam = Some ''Unknown''\<rparr>,
        attempts =
          [\<lparr>status = TimedOut, duration = 5,
            errors = [\<lparr>message = ''Network status=500'', stack = Some ''at step 1''\<rparr>,
                      \<lparr>message = ''No error message'', stack = Some ''at step 2''\<rparr>]\<rparr>]\<rparr>)]"
  by (simp add: scenarioC_def scenario_defs)

lemma scenarioTimeout_records:
  "testRecords scenarioTimeout =
     [(''checkout'',
       \<lparr>test = \<lparr>testId = Some ''id-1'', testTitle = ''checkout'', suiteTitle = ''shop'',
                 testFile = None, location = None, status_t = Some ''failed'',
                 outcome = Some ''unexpected'', owningTeam = Some ''Unknown''\<rparr>,
        attempts =
          [\<lparr>status = TimedOut, duration = 5,
            errors = [\<lparr>message = ''Timeout of 5000ms exceeded'', stack = Some ''at step 1''\<rparr>,
                      \<lparr>message = ''No error message'', stack = Some ''at step 2''\<rparr>]\<rparr>]\<rparr>)]"
  by (simp add: scenarioTimeout_def scenario_defs)

lemma scenarioMixed_records:
  "testRecords scenarioMixed =
     [(''login'',
       \<lparr>test = \<lparr>testId = Some ''id-2'', testTitle = ''login'', suiteTitle = ''shop'',
                 testFile = None, location = None, status_t = Some ''passed'',
                 outcome = Some ''expected'', owningTeam = Some ''Unknown''\<rparr>,
        attempts = [\<lparr>status = Passed, duration = 4 / 5, errors = []\<rparr>]\<rparr>),
      (''checkout'',
       \<lparr>test = \<lparr>testId = Some ''id-1'', testTitle = ''checkout'', suiteTitle = ''shop'',
                 testFile = None, location = None, status_t = Some ''failed'',
                 outcome = Some ''unexpected'', owningTeam = Some ''Unknown''\<rparr>,
        attempts =
          [\<lparr>status = Failed, duration = 5,
            errors = [\<lparr>message = ''expect(received).toBe(expected)'', stack = Some ''at step 1''\<rparr>,
                      \<lparr>message = ''No error message'', stack = Some ''at step 2''\<rparr>]\<rparr>]\<rparr>),
      (''cleanup'',
       \<lparr>test = \<lparr>testId = Some ''id-3'', testTitle = ''cleanup'', suiteTitle = ''Unknown Suite'',
                 testFile = None, location = None, status_t = Some ''skipped'',
                 outcome = Some ''skipped'', owningTeam = Some ''Unknown''\<rparr>,
        attempts = [\<lparr>status = Skipped, duration = 0, errors = []\<rparr>]\<rparr>)]"
  by (simp add: scenarioMixed_def scenario_defs)

lemma scenarioMixed_flags: "nonTestErrors scenarioMixed = [] \<and> \<not> hasInterruptedTests scenarioMixed"
  by (simp add: scenarioMixed_def flags_defs)




text \<open>
  The store of a repeated run: one record, created by the first repetition, with one
  passed attempt for every repetition.
\<close>

lemma repeatedRun_Suc:
  "repeatedRun (Suc n) = onTestEnd unknownTeam (repetition n) (passedIn 1230 0) (repeatedRun n)"
  by (simp add: repeatedRun_def runEvents_def)

lemma repeatedRun_records:
  "testRecords (repeatedRun (Suc n)) =
     [(''checkout'',
       \<lparr>test = \<lparr>testId = Some ''id-1-'', testTitle = ''checkout'', suiteTitle = ''shop'',
                 testFile = None, location = None, status_t = Some ''passed'',
                 outcome = Some ''expected'', owningTeam = Some ''Unknown''\<rparr>,
        attempts = replicate (Suc n) \<lparr>status = Passed, duration = 123 / 100, errors = []\<rparr>\<rparr>)]"
proof (induction n)
  case 0
  show ?case
    by (simp add: repeatedRun_Suc repeatedRun_def repetition_def scenario_defs)
next
  case (Suc n)
  have "replicate n \<lparr>status = Passed, duration = 123 / 100, errors = []\<rparr>
          @ [\<lparr>status = Passed, duration = 123 / 100, errors = []\<rparr>]
        = replicate (Suc n) \<lparr>status = Passed, duration = 123 / 100, errors = []\<rparr>"
    by (simp add: replicate_append_same)
  then show ?case
    by (simp add: repeatedRun_Suc [of "Suc n"] Suc.IH onTestEnd_testRecords map_get_def
        repetition_def newAttempt_def passedIn_def)
qed

lemma repeatedRun_flags:
  "nonTestErrors (repeatedRun n) = [] \<and> \<not> hasInterruptedTests (repeatedRun n)"
  by (induction n) (simp_all add: repeatedRun_Suc onTestEnd_other passedIn_def,
      simp_all add: repeatedRun_def runEvents_def newReporter_simps)

lemma repeatedRun_passedDurations:
  "passedDurationsOf (firstRecord (repeatedRun (Suc n))) = replicate (Suc n) (123 / 100)"
  by (simp add: firstRecord_def repeatedRun_records passedDurationsOf_def)

section \<open>The exit signal\<close>

text \<open>
  Whenever \<open>onEnd\<close> returns from a run with a test recorded, the exit code it has set is
  \<open>1\<close> if there is a failure, a non-test error or an interruption, and \<open>0\<close> otherwise.
  It returns when every record has an attempt, as in every store the handlers build
  (\<open>runEvents_invariants\<close>), and the two spreads fit the engine.
\<close>

lemma onEnd_returned_exitCode:
  assumes "onEnd eng env st = Inr st'" and "testRecords st \<noteq> []"
  shows "\<exists>res. processTestResults eng (testRecords st) = Inr res
           \<and> exitCode st' = Some (if length (failures_r res) > 0 \<or> length (nonTestErrors st) > 0
                                      \<or> hasInterruptedTests st then 1 else 0)"
proof -
  from assms(1) obtain res where p: "processTestResults eng (testRecords st) = Inr res"
    by (cases "processTestResults eng (testRecords st)") (simp_all add: onEnd_def)
  then have "res = aggregate (map_values (testRecords st))" by (rule processTestResults_returns)
  with assms(2) have n: "testCount_r res \<noteq> 0" by (simp add: aggregate_testCount map_values_def)
  from assms(1) p n obtain s where m: "makeSummary eng env st res = Inr s"
    by (cases "makeSummary eng env st res") (simp_all add: onEnd_def)
  from onEnd_nonempty_exitCode [OF p n m] assms(1) p show ?thesis by auto
qed

lemma onEnd_fits_exitCode:
  assumes "testRecords st \<noteq> []" and "attemptsNonEmpty (testRecords st)"
    and "pushesFit eng (testRecords st)" and "maxFits eng (testRecords st)"
  shows "\<exists>res st'. processTestResults eng (testRecords st) = Inr res \<and> onEnd eng env st = Inr st'
           \<and> exitCode st' = Some (if length (failures_r res) > 0 \<or> length (nonTestErrors st) > 0
                                      \<or> hasInterruptedTests st then 1 else 0)"
proof -
  from onEnd_returns [OF assms, of env] obtain s where
    p: "processTestResults eng (testRecords st) = Inr (aggregate (map_values (testRecords st)))"
    and n: "testCount_r (aggregate (map_values (testRecords st))) \<noteq> 0"
    and m: "makeSummary eng env st (aggregate (map_values (testRecords st))) = Inr s"
    by blast
  from onEnd_nonempty_exitCode [OF p n m] p show ?thesis by blast
qed

text \<open>A run of one passed test ends with exit code \<open>0\<close>, a run with a failed test with \<open>1\<close>.\<close>

lemma onEnd_exit_examples:
  "(\<exists>st'. onEnd exampleEngine localEnv scenarioA = Inr st' \<and> exitCode st' = Some 0)
   \<and> (\<exists>st'. onEnd exampleEngine localEnv scenarioMixed = Inr st' \<and> exitCode st' = Some 1)"
proof -
  have a: "\<exists>st'. onEnd exampleEngine localEnv scenarioA = Inr st' \<and> exitCode st' = Some 0"
  proof -
    have h1: "testRecords scenarioA \<noteq> []" by (simp add: scenarioA_records)
    have h2: "attemptsNonEmpty (testRecords scenarioA)"
      by (simp add: scenarioA_records attemptsNonEmpty_def map_values_def)
    have h3: "pushesFit exampleEngine (testRecords scenarioA)"
      by (simp add: scenarioA_records pushesFit_def map_values_def passedDurationsOf_def
          exampleEngine_def)
    have h4: "maxFits exampleEngine (testRecords scenarioA)"
      by (simp add: scenarioA_records maxFits_def map_values_def passedDurationsOf_def
          exampleEngine_def)
    from onEnd_fits_exitCode [OF h1 h2 h3 h4, of localEnv] obtain res st' where
      r: "processTestResults exampleEngine (testRecords scenarioA) = Inr res"
      and e: "onEnd exampleEngine localEnv scenarioA = Inr st'"
      and x: "exitCode st' = Some (if length (failures_r res) > 0 \<or> length (nonTestErrors scenarioA) > 0
                                      \<or> hasInterruptedTests scenarioA then 1 else 0)"
      by blast
    from r have "res = aggregate (map_values (testRecords scenarioA))"
      by (rule processTestResults_returns)
    then have "failures_r res = []"
      by (simp add: aggregate_def scenarioA_records map_values_def isFailureOutcome_def
          isPassedOutcome_def)
    with x e show ?thesis by (simp add: scenarioA_flags)
  qed
  have b: "\<exists>st'. onEnd exampleEngine localEnv scenarioMixed = Inr st' \<and> exitCode st' = Some 1"
  proof -
    have h1: "testRecords scenarioMixed \<noteq> []" by (simp add: scenarioMixed_records)
    have h2: "attemptsNonEmpty (testRecords scenarioMixed)"
      by (simp add: scenarioMixed_records attemptsNonEmpty_def map_values_def)
    have h3: "pushesFit exampleEngine (testRecords scenarioMixed)"
      by (simp add: scenarioMixed_records pushesFit_def map_values_def passedDurationsOf_def
          isPassedOutcome_def exampleEngine_def)
    have h4: "maxFits exampleEngine (testRecords scenarioMixed)"
      by (simp add: scenarioMixed_records maxFits_def map_values_def passedDurationsOf_def
          isPassedOutcome_def exampleEngine_def)
    from onEnd_fits_exitCode [OF h1 h2 h3 h4, of localEnv] obtain res st' where
      r: "processTestResults exampleEngine (testRecords scenarioMixed) = Inr res"
      and e: "onEnd exampleEngine localEnv scenarioMixed = Inr st'"
      and x: "exitCode st' = Some (if length (failures_r res) > 0 \<or> length (nonTestErrors scenarioMixed) > 0
                                      \<or> hasInterruptedTests scenarioMixed then 1 else 0)"
      by blast
    from r have "res = aggregate (map_values (testRecords scenarioMixed))"
      by (rule processTestResults_returns)
    then have "length (failures_r res) = 1"
      by (simp add: aggregate_def scenarioMixed_records map_values_def isFailureOutcome_def
          isPassedOutcome_def isSkippedOutcome_def)
    with x e show ?thesis by simp
  qed
  from a b show ?thesis by blast
qed

text \<open>
  The store of a repeated run under result processing: a \<open>RangeError\<close> where the
  repetitions are more than \<open>push\<close> takes arguments, and otherwise one passed test with
  a duration for every repetition.
\<close>

lemma repeatedRun_results:
  "processTestResults eng (testRecords (repeatedRun (Suc n))) =
     (if pushArguments eng < Suc n then Inl RangeError
      else Inr \<lparr>passedCount_r = 1, testCount_r = 1, skippedCount_r = 0, failedCount_r = 0,
                failures_r = [], passedDurations_r = replicate (Suc n) (123 / 100)\<rparr>)"
  by (simp add: repeatedRun_records processTestResults_def map_values_def processRecord_def
      initResults_def Let_def)

text \<open>
  C1 fails on a long run. When one passing test is repeated once more than \<open>Math.max\<close>
  takes arguments, the run has a test recorded, no non-test error and no interruption, and
  \<open>onEnd\<close> throws a \<open>RangeError\<close>, at the \<open>push\<close> of result processing or at the
  \<open>Math.max\<close> of the summary: it sets no exit code.
\<close>

theorem onEnd_throws_on_long_run:
  "testRecords (repeatedRun (Suc (maxArguments eng))) \<noteq> []
   \<and> nonTestErrors (repeatedRun (Suc (maxArguments eng))) = []
   \<and> hasInterruptedTests (repeatedRun (Suc (maxArguments eng))) = False
   \<and> onEnd eng localEnv (repeatedRun (Suc (maxArguments eng))) = Inl RangeError"
proof -
  let ?st = "repeatedRun (Suc (maxArguments eng))"
  have 1: "testRecords ?st \<noteq> []" by (simp add: repeatedRun_records)
  have 2: "nonTestErrors ?st = []" and 3: "hasInterruptedTests ?st = False"
    using repeatedRun_flags [of "Suc (maxArguments eng)"] by simp_all
  have 4: "onEnd eng localEnv ?st = Inl RangeError"
  proof (cases "pushArguments eng < Suc (maxArguments eng)")
    case True
    then have "processTestResults eng (testRecords ?st) = Inl RangeError"
      by (simp add: repeatedRun_results)
    then show ?thesis by (simp add: onEnd_def)
  next
    case False
    then have "processTestResults eng (testRecords ?st) =
        Inr \<lparr>passedCount_r = 1, testCount_r = 1, skippedCount_r = 0, failedCount_r = 0,
             failures_r = [], passedDurations_r = replicate (Suc (maxArguments eng)) (123 / 100)\<rparr>"
      by (simp add: repeatedRun_results)
    then show ?thesis by (simp add: onEnd_def makeSummary_def)
  qed
  from 1 2 3 4 show ?thesis by blast
qed

text \<open>
  C2: when no test was recorded, \<open>onEnd\<close> only logs that no tests were found and sets
  exit code \<open>1\<close>, whatever the rest of the state, the environment and the engine are: no
  summary and no last-run record is written.
\<close>

theorem onEnd_no_tests:
  assumes "testRecords st = []"
  shows "\<exists>st'. onEnd eng env st = Inr st'
           \<and> effects st' = effects st @ [Console NoTestsFound]
           \<and> exitCode st' = Some 1
           \<and> summaryWrites (effects st') = summaryWrites (effects st)
           \<and> lastRunWrites (effects st') = lastRunWrites (effects st)"
  using assms
  by (simp add: onEnd_def processTestResults_eq map_values_def aggregate_def exitWithError_def
      emit_def summaryWrites_append summaryWrites_simps lastRunWrites_append lastRunWrites_simps)

theorem onEnd_no_tests_witness:
  "testRecords (newReporter defaultConfig) = []
   \<and> (\<exists>st'. onEnd exampleEngine localEnv (newReporter defaultConfig) = Inr st'
          \<and> effects st' = [Console NoTestsFound] \<and> exitCode st' = Some 1
          \<and> summaryWrites (effects st') = [] \<and> lastRunWrites (effects st') = [])"
proof -
  have h: "testRecords (newReporter defaultConfig) = []" by (simp add: newReporter_simps)
  from onEnd_no_tests [OF h, of exampleEngine localEnv] show ?thesis
    by (simp add: newReporter_simps summaryWrites_simps lastRunWrites_simps)
qed

section \<open>Result processing\<close>

text \<open>
  For a record whose captured outcome is \<open>flaky\<close> or \<open>expected\<close>, the loop body throws
  when the record has more passed attempts than \<open>push\<close> takes arguments; otherwise it
  counts one more test and one more passed test, appends the durations of exactly the
  attempts whose own status is \<open>passed\<close>, and leaves the failures and the skipped count
  as they are.
\<close>

lemma passed_outcome_record:
  assumes "outcome (test r) = Some ''flaky'' \<or> outcome (test r) = Some ''expected''"
  shows "processRecord eng acc r =
           (if pushArguments eng < length (filter (\<lambda>a. status a = Passed) (attempts r))
            then Inl RangeError
            else Inr (acc\<lparr>testCount_r := testCount_r acc + 1,
                          passedCount_r := passedCount_r acc + 1,
                          passedDurations_r := passedDurations_r acc
                            @ map duration (filter (\<lambda>a. status a = Passed) (attempts r))\<rparr>))"
proof -
  have p: "isPassedOutcome r" using assms by (auto simp: isPassedOutcome_def)
  show ?thesis
    using p isPassed_not_others [OF p]
    by (simp add: processRecord_passed aggregateFrom_def passedDurationsOf_def)
qed

text \<open>
  C3 fails on a record with many passed attempts. The record of a passing test repeated
  once more than \<open>push\<close> takes arguments has the captured outcome \<open>expected\<close>, and the
  loop body throws a \<open>RangeError\<close> on it: the test is not counted and no duration is
  appended.
\<close>

theorem processRecord_throws_on_long_record:
  "outcome (test (firstRecord (repeatedRun (Suc (pushArguments eng))))) = Some ''expected''
   \<and> length (filter (\<lambda>a. status a = Passed)
               (attempts (firstRecord (repeatedRun (Suc (pushArguments eng))))))
       = Suc (pushArguments eng)
   \<and> processRecord eng initResults (firstRecord (repeatedRun (Suc (pushArguments eng))))
       = Inl RangeError"
  by (simp add: firstRecord_def repeatedRun_records processRecord_def Let_def)

text \<open>
  The run-end failure of a record captured as \<open>unexpected\<close>: \<open>isTimeout\<close> is containment
  of \<open>timeout\<close> in some error message of the last attempt, the message is the first
  error's, the category the category of that message. The attempt's status plays no part:
  for the last-attempt message \<open>Network status=500\<close> with status \<open>timedOut\<close>, \<open>isTimeout\<close>
  is false and the category is \<open>NetworkError\<close>.
\<close>

lemma unexpected_record_failure:
  assumes "outcome (test r) = Some ''unexpected''" and "attempts r \<noteq> []"
  shows "\<exists>f. processRecord eng acc r =
               Inr (acc\<lparr>testCount_r := testCount_r acc + 1, failures_r := failures_r acc @ [f]\<rparr>)
           \<and> isTimeout f = list_ex (\<lambda>e. includes_str (message e) ''timeout'') (errors (last (attempts r)))
           \<and> errorMessage f = (case errors (last (attempts r)) of [] \<Rightarrow> [] | e # es \<Rightarrow> message e)
           \<and> errorCategory f = categorizeError (errorMessage f)"
proof -
  let ?f = "unexpectedFailure (test r) (last (attempts r))"
  have "processRecord eng acc r =
          Inr (acc\<lparr>testCount_r := testCount_r acc + 1, failures_r := failures_r acc @ [?f]\<rparr>)"
    using assms by (simp add: processRecord_def finalAttemptOf_def Let_def)
  moreover have "isTimeout ?f = list_ex (\<lambda>e. includes_str (message e) ''timeout'') (errors (last (attempts r)))"
    by (simp add: unexpectedFailure_def Let_def)
  moreover have "errorMessage ?f = (case errors (last (attempts r)) of [] \<Rightarrow> [] | e # es \<Rightarrow> message e)"
    by (simp add: unexpectedFailure_def Let_def first_def orElse_def split: list.splits)
  moreover have "errorCategory ?f = categorizeError (errorMessage ?f)"
    by (simp add: unexpectedFailure_def Let_def)
  ultimately show ?thesis by blast
qed

lemma scenarioC_failure:
  "status (last (attempts (firstRecord scenarioC))) = TimedOut
   \<and> processTestResults eng (testRecords scenarioC) =
     Inr \<lparr>passedCount_r = 0, testCount_r = 1, skippedCount_r = 0, failedCount_r = 1,
          failures_r =
            [\<lparr>testId_f = Some ''id-1'', testTitle_f = ''checkout'', suiteTitle_f = ''shop'',
              owningTeam_f = ''Unknown'', errorMessage = ''Network status=500'',
              errorStack = ''at step 1'' @ [CHR 0x0A] @ ''at step 2'', duration_f = 5,
              isTimeout = False, errorCategory = ''NetworkError'',
              testFile_f = None, location_f = None\<rparr>],
          passedDurations_r = []\<rparr>"
  by (simp add: firstRecord_def scenarioC_records processTestResults_def map_values_def
      processRecord_def initResults_def finalAttemptOf_def unexpectedFailure_def Let_def orElse_def
      first_def categorizeError_def)

text \<open>
  C4 fails where the message spells \<open>Timeout\<close> with a capital: the run-end failure of an
  unexpected test whose last attempt timed out with \<open>Timeout of 5000ms exceeded\<close> has
  \<open>isTimeout = False\<close>, although the message contains \<open>Timeout\<close> and the classifier
  puts it into \<open>Timeout/DelayedElement\<close>. The test \<open>processTestResults\<close> makes is
  containment of the lower-case \<open>timeout\<close>.
\<close>

theorem isTimeout_misses_capital_Timeout:
  "processTestResults eng (testRecords scenarioTimeout) =
     Inr \<lparr>passedCount_r = 0, testCount_r = 1, skippedCount_r = 0, failedCount_r = 1,
          failures_r =
            [\<lparr>testId_f = Some ''id-1'', testTitle_f = ''checkout'', suiteTitle_f = ''shop'',
              owningTeam_f = ''Unknown'', errorMessage = ''Timeout of 5000ms exceeded'',
              errorStack = ''at step 1'' @ [CHR 0x0A] @ ''at step 2'', duration_f = 5,
              isTimeout = False, errorCategory = ''Timeout/DelayedElement'',
              testFile_f = None, location_f = None\<rparr>],
          passedDurations_r = []\<rparr>
   \<and> includes_str ''Timeout of 5000ms exceeded'' ''Timeout''
   \<and> status (last (attempts (firstRecord scenarioTimeout))) = TimedOut"
  by (simp add: firstRecord_def scenarioTimeout_records processTestResults_def map_values_def
      processRecord_def initResults_def finalAttemptOf_def unexpectedFailure_def Let_def orElse_def
      first_def categorizeError_def)

text \<open>
  Whatever result processing returns, every record is in exactly one of the passed,
  skipped and failure buckets, the three counts are the sizes of the buckets, and so the
  summary's \<open>failedCount\<close>, computed as \<open>testCount - passedCount - skippedCount\<close>, is the
  length of the failures list, as is the \<open>failedCount\<close> of the results.
\<close>

lemma one_bucket:
  "of_bool (isPassedOutcome r) + of_bool (isSkippedOutcome r) + of_bool (isFailureOutcome r) = (1::nat)"
  by (auto simp: isFailureOutcome_def isPassedOutcome_def isSkippedOutcome_def)

lemma returned_results_partition:
  assumes "processTestResults eng recs = Inr res"
  shows "testCount_r res = int (length recs)
       \<and> passedCount_r res = int (length (filter isPassedOutcome (map_values recs)))
       \<and> skippedCount_r res = int (length (filter isSkippedOutcome (map_values recs)))
       \<and> length (failures_r res) = length (filter isFailureOutcome (map_values recs))
       \<and> testCount_r res - passedCount_r res - skippedCount_r res = int (length (failures_r res))
       \<and> failedCount_r res = int (length (failures_r res))"
proof -
  let ?rs = "map_values recs"
  have r: "res = aggregate ?rs" using assms by (rule processTestResults_returns)
  have b: "int (length ?rs) - int (length (filter isPassedOutcome ?rs))
             - int (length (filter isSkippedOutcome ?rs)) = int (length (filter isFailureOutcome ?rs))"
    using bucket_lengths [of ?rs] by linarith
  show ?thesis using b by (simp add: r aggregate_def map_values_def)
qed

lemma returned_summary_partition:
  assumes "processTestResults eng (testRecords st) = Inr res"
    and "makeSummary eng env st res = Inr s"
  shows "failedCount s = testCount s - passedCount s - skippedCount s
       \<and> failedCount s = int (length (failures s))"
proof -
  from assms(2) have s: "failedCount s = testCount_r res - passedCount_r res - skippedCount_r res"
    "testCount s = testCount_r res" "passedCount s = passedCount_r res"
    "skippedCount s = skippedCount_r res" "failures s = failures_r res"
    by (auto simp: makeSummary_def split: if_splits)
  with returned_results_partition [OF assms(1)] show ?thesis by simp
qed

text \<open>
  C7 fails on a store with a long record. The store of a passing test repeated once more
  than \<open>push\<close> takes arguments has an attempt in every record, and result processing
  throws a \<open>RangeError\<close> on it: there are no counts and there is no failures list.
\<close>

theorem processTestResults_throws_on_long_record:
  "attemptsNonEmpty (testRecords (repeatedRun (Suc (pushArguments eng))))
   \<and> processTestResults eng (testRecords (repeatedRun (Suc (pushArguments eng)))) = Inl RangeError"
proof
  show "attemptsNonEmpty (testRecords (repeatedRun (Suc (pushArguments eng))))"
    by (simp add: attemptsNonEmpty_def repeatedRun_records map_values_def)
  show "processTestResults eng (testRecords (repeatedRun (Suc (pushArguments eng)))) = Inl RangeError"
    by (simp add: repeatedRun_results)
qed

section \<open>The slowest tests\<close>



section \<open>Purity of the aggregation\<close>

text \<open>
  C9: on a heap that holds a store, calling the aggregation, and calling it again on the
  heap the first call leaves, changes no cell that was allocated before the first call, so
  the store is the same afterwards; the first call returns what \<open>processTestResults\<close>
  computes from the store's value alone, and the second call returns the same counts, the
  same failures and the same \<open>passedDurations\<close>.
\<close>

theorem aggregation_pure:
  assumes "wfStore h m"
  shows "case processTestResultsH eng m h of
           (r1, h1) \<Rightarrow>
             (case processTestResultsH eng m h1 of
                (r2, h2) \<Rightarrow>
                  unchangedBelow h h1 \<and> unchangedBelow h h2
                  \<and> absStore h1 m = absStore h m \<and> absStore h2 m = absStore h m
                  \<and> viewResults h1 r1 = processTestResults eng (absStore h m)
                  \<and> viewResults h2 r2 = viewResults h1 r1)"
proof -
  obtain r1 h1 where c1: "processTestResultsH eng m h = (r1, h1)"
    by (cases "processTestResultsH eng m h")
  obtain r2 h2 where c2: "processTestResultsH eng m h1 = (r2, h2)"
    by (cases "processTestResultsH eng m h1")
  have u1: "unchangedBelow h h1" using c1 by (rule processTestResultsH_keeps)
  have u12: "unchangedBelow h1 h2" using c2 by (rule processTestResultsH_keeps)
  have u2: "unchangedBelow h h2" using u1 u12 by (rule unchangedBelow_trans)
  from wfStore_unchanged [OF assms u1] have wf1: "wfStore h1 m"
    and s1: "absStore h1 m = absStore h m" by simp_all
  from wfStore_unchanged [OF assms u2] have s2: "absStore h2 m = absStore h m" by simp
  have v1: "viewResults h1 r1 = processTestResults eng (absStore h m)"
    using assms c1 by (rule processTestResultsH_simulates)
  have "viewResults h2 r2 = processTestResults eng (absStore h1 m)"
    using wf1 c2 by (rule processTestResultsH_simulates)
  with v1 s1 have v2: "viewResults h2 r2 = viewResults h1 r1" by simp
  from u1 u2 s1 s2 v1 v2 show ?thesis by (simp add: c1 c2)
qed

lemma exampleHeap_store:
  "absStore exampleHeap 0 =
     [(''checkout'',
       \<lparr>test = \<lparr>testId = Some ''id-1'', testTitle = ''checkout'', suiteTitle = ''shop'',
                 testFile = None, location = None, status_t = Some ''failed'',
                 outcome = Some ''flaky'', owningTeam = Some ''Unknown''\<rparr>,
        attempts =
          [\<lparr>status = Failed, duration = 5,
            errors = [\<lparr>message = ''Timeout of 5000ms exceeded'', stack = Some ''at step 1''\<rparr>]\<rparr>,
           \<lparr>status = Passed, duration = 123 / 100, errors = []\<rparr>]\<rparr>)]"
  by (simp add: absStore_def absRecord_def absAttempt_def readRecords_def readAttempts_def
      readErrors_def exampleHeap_def)

theorem aggregation_pure_witness:
  "wfStore exampleHeap 0
   \<and> viewResults (snd (processTestResultsH exampleEngine 0 exampleHeap))
         (fst (processTestResultsH exampleEngine 0 exampleHeap)) =
       Inr \<lparr>passedCount_r = 1, testCount_r = 1, skippedCount_r = 0, failedCount_r = 0,
            failures_r = [], passedDurations_r = [123 / 100]\<rparr>
   \<and> viewResults
         (snd (processTestResultsH exampleEngine 0 (snd (processTestResultsH exampleEngine 0 exampleHeap))))
         (fst (processTestResultsH exampleEngine 0 (snd (processTestResultsH exampleEngine 0 exampleHeap)))) =
       Inr \<lparr>passedCount_r = 1, testCount_r = 1, skippedCount_r = 0, failedCount_r = 0,
            failures_r = [], passedDurations_r = [123 / 100]\<rparr>
   \<and> absStore (snd (processTestResultsH exampleEngine 0 exampleHeap)) 0 = absStore exampleHeap 0
   \<and> unchangedBelow exampleHeap (snd (processTestResultsH exampleEngine 0 exampleHeap))"
proof -
  have wf: "wfStore exampleHeap 0"
    by (simp add: wfStore_def wfRecord_def isErrorsAt_def readRecords_def readAttempts_def
        readErrors_def exampleHeap_def)
  have p: "processTestResults exampleEngine (absStore exampleHeap 0) =
       Inr \<lparr>passedCount_r = 1, testCount_r = 1, skippedCount_r = 0, failedCount_r = 0,
            failures_r = [], passedDurations_r = [123 / 100]\<rparr>"
    by (simp add: exampleHeap_store processTestResults_def map_values_def processRecord_def
        initResults_def Let_def exampleEngine_def)
  from aggregation_pure [OF wf, of exampleEngine] p wf show ?thesis
    by (simp add: case_prod_beta)
qed

section \<open>Attempt ingestion\<close>

text \<open>
  C10: for an attempt that ended \<open>failed\<close> or \<open>timedOut\<close>, \<open>onTestEnd\<close> hands one
  failure to the file handler, the same whatever the reporter's state is. Its \<open>isTimeout\<close>
  is true exactly when the status is \<open>timedOut\<close>; its message and its stack are those of
  the attempt's first error (\<open>Unknown error\<close> and the empty stack when missing), the
  stacks of further errors are not added; its category is the category of its message.
\<close>

theorem onTestEnd_provisional_failure:
  assumes "status_tr result = Failed \<or> status_tr result = TimedOut"
  shows "\<exists>f. (\<forall>st. effects (onTestEnd g t result st) =
                    effects st @ [AddFailure f,
                      Console (TestOutcomeLine (title t) (status_tr result) (retry result)
                                 (duration_tr result / 1000))])
           \<and> isTimeout f = (status_tr result = TimedOut)
           \<and> errorMessage f =
               (case errors_tr result of [] \<Rightarrow> ''Unknown error''
                | e # es \<Rightarrow> orElse (message_e e) ''Unknown error'')
           \<and> errorStack f =
               (case errors_tr result of [] \<Rightarrow> [] | e # es \<Rightarrow> orElse (stack_e e) [])
           \<and> errorCategory f = categorizeError (errorMessage f)
           \<and> duration_f f = duration_tr result / 1000"
proof -
  let ?f = "provisionalFailure g t result"
  have "\<forall>st. effects (onTestEnd g t result st) =
               effects st @ [AddFailure ?f,
                 Console (TestOutcomeLine (title t) (status_tr result) (retry result)
                            (duration_tr result / 1000))]"
    using assms by (auto simp: onTestEnd_effects)
  moreover have "isTimeout ?f = (status_tr result = TimedOut)"
    by (simp add: provisionalFailure_def)
  moreover have "errorMessage ?f =
               (case errors_tr result of [] \<Rightarrow> ''Unknown error''
                | e # es \<Rightarrow> orElse (message_e e) ''Unknown error'')"
    by (simp add: provisionalFailure_def first_def orElse_def split: list.splits)
  moreover have "errorStack ?f =
               (case errors_tr result of [] \<Rightarrow> [] | e # es \<Rightarrow> orElse (stack_e e) [])"
    by (simp add: provisionalFailure_def first_def orElse_def split: list.splits)
  moreover have "errorCategory ?f = categorizeError (errorMessage ?f)"
    by (simp add: provisionalFailure_def)
  moreover have "duration_f ?f = duration_tr result / 1000"
    by (simp add: provisionalFailure_def)
  ultimately show ?thesis by blast
qed

theorem onTestEnd_provisional_failure_witness:
  "status_tr (endedWith TimedOut ''Network status=500'') = TimedOut
   \<and> (\<exists>f. effects (onTestEnd unknownTeam (checkout ''unexpected'')
                      (endedWith TimedOut ''Network status=500'') (newReporter defaultConfig)) =
               [AddFailure f, Console (TestOutcomeLine ''checkout'' TimedOut 0 5)]
          \<and> isTimeout f = True \<and> errorMessage f = ''Network status=500''
          \<and> errorStack f = ''at step 1'' \<and> errorCategory f = ''NetworkError'')"
proof -
  let ?r = "endedWith TimedOut ''Network status=500''"
  have h: "status_tr ?r = TimedOut" by (simp add: endedWith_def)
  then have "status_tr ?r = Failed \<or> status_tr ?r = TimedOut" by simp
  from onTestEnd_provisional_failure [OF this, of unknownTeam "checkout ''unexpected''"]
  obtain f where
    e: "\<forall>st. effects (onTestEnd unknownTeam (checkout ''unexpected'') ?r st) =
              effects st @ [AddFailure f,
                Console (TestOutcomeLine (title (checkout ''unexpected'')) (status_tr ?r) (retry ?r)
                           (duration_tr ?r / 1000))]"
    and t: "isTimeout f = (status_tr ?r = TimedOut)"
    and m: "errorMessage f = (case errors_tr ?r of [] \<Rightarrow> ''Unknown error''
                              | e # es \<Rightarrow> orElse (message_e e) ''Unknown error'')"
    and s: "errorStack f = (case errors_tr ?r of [] \<Rightarrow> [] | e # es \<Rightarrow> orElse (stack_e e) [])"
    and c: "errorCategory f = categorizeError (errorMessage f)"
    by blast
  from e have e': "effects (onTestEnd unknownTeam (checkout ''unexpected'') ?r (newReporter defaultConfig)) =
               [AddFailure f, Console (TestOutcomeLine ''checkout'' TimedOut 0 5)]"
    by (simp add: newReporter_simps endedWith_def checkout_def)
  from t have t': "isTimeout f = True" by (simp add: endedWith_def)
  from m have m': "errorMessage f = ''Network status=500''" by (simp add: endedWith_def orElse_def)
  from s have s': "errorStack f = ''at step 1''" by (simp add: endedWith_def orElse_def)
  from c have c': "errorCategory f = ''NetworkError''" by (simp add: m' categorizeError_def)
  from h e' t' m' s' c' show ?thesis by blast
qed

section \<open>The last-run record\<close>

text \<open>
  The outcome a record captures is the one reported at the first attempt of its title,
  which is \<open>expected\<close>, \<open>unexpected\<close> or \<open>skipped\<close>; on such a store the records of the
  failure bucket are the records captured as \<open>unexpected\<close>.
\<close>

lemma outcomesAtCreation_unexpected:
  assumes "outcomesAtCreation recs"
  shows "filter isFailureOutcome (map_values recs)
       = filter (\<lambda>r. outcome (test r) = Some ''unexpected'') (map_values recs)"
proof (rule filter_cong [OF refl])
  fix r assume "r \<in> set (map_values recs)"
  with assms obtain oc where "outcome (test r) = Some oc" "atFirstAttempt oc"
    by (auto simp: outcomesAtCreation_def list_all_iff split: option.splits)
  then show "isFailureOutcome r = (outcome (test r) = Some ''unexpected'')"
    by (auto simp: atFirstAttempt_def isFailureOutcome_def isPassedOutcome_def isSkippedOutcome_def)
qed

text \<open>
  C5: take the end of a run with at least one test, on a store as the handlers build it
  from what a runner reports: every record has an attempt, its stored status is the one
  \<open>outcomeToStatus\<close> computed from the captured outcome, and that outcome is one reported
  at a first attempt. Whenever \<open>onEnd\<close> returns, and it does when the two spreads fit the
  engine, it has written one last-run record. The status of the record is \<open>failed\<close>
  exactly when result processing produced a failure, and \<open>passed\<close> otherwise. Its
  \<open>failedTests\<close> are, in store order, the test ids (the empty string for a missing id)
  of exactly the failures produced, which are the records of the failure bucket, the
  tests captured as \<open>unexpected\<close>.
\<close>

theorem lastRun_record:
  assumes "testRecords st \<noteq> []" and "attemptsNonEmpty (testRecords st)"
    and "statusFromOutcome (testRecords st)" and "outcomesAtCreation (testRecords st)"
  shows "(pushesFit eng (testRecords st) \<and> maxFits eng (testRecords st)
            \<longrightarrow> (\<exists>st'. onEnd eng env st = Inr st'))
       \<and> (\<forall>st'. onEnd eng env st = Inr st' \<longrightarrow>
            (\<exists>res d. processTestResults eng (testRecords st) = Inr res
               \<and> lastRunWrites (effects st') = lastRunWrites (effects st) @ [d]
               \<and> status_l d = (if failures_r res \<noteq> [] then ''failed'' else ''passed'')
               \<and> failedTests d = map (\<lambda>f. orElse (testId_f f) []) (failures_r res)
               \<and> failedTests d =
                   map (\<lambda>r. orElse (testId (test r)) [])
                     (filter isFailureOutcome (map_values (testRecords st)))
               \<and> failedTests d =
                   map (\<lambda>r. orElse (testId (test r)) [])
                     (filter (\<lambda>r. outcome (test r) = Some ''unexpected'')
                        (map_values (testRecords st)))))"
proof (intro conjI impI allI)
  assume "pushesFit eng (testRecords st) \<and> maxFits eng (testRecords st)"
  then have f: "pushesFit eng (testRecords st)" "maxFits eng (testRecords st)" by simp_all
  from onEnd_returns [OF assms(1,2) f, of env] obtain s where
    p: "processTestResults eng (testRecords st) = Inr (aggregate (map_values (testRecords st)))"
    and n: "testCount_r (aggregate (map_values (testRecords st))) \<noteq> 0"
    and m: "makeSummary eng env st (aggregate (map_values (testRecords st))) = Inr s"
    by blast
  from onEnd_nonempty_writes [OF p n m] show "\<exists>st'. onEnd eng env st = Inr st'" by blast
next
  fix st' assume e: "onEnd eng env st = Inr st'"
  let ?rs = "map_values (testRecords st)"
  from e obtain res where p: "processTestResults eng (testRecords st) = Inr res"
    by (cases "processTestResults eng (testRecords st)") (simp_all add: onEnd_def)
  then have r: "res = aggregate ?rs" by (rule processTestResults_returns)
  with assms(1) have n: "testCount_r res \<noteq> 0" by (simp add: aggregate_testCount map_values_def)
  from e p n obtain s where m: "makeSummary eng env st res = Inr s"
    by (cases "makeSummary eng env st res") (simp_all add: onEnd_def)
  from onEnd_nonempty_writes [OF p n m] e
  have w: "lastRunWrites (effects st') = lastRunWrites (effects st) @ [lastRunDataOf st res]"
    by auto
  have s: "status_l (lastRunDataOf st res) = (if failures_r res \<noteq> [] then ''failed'' else ''passed'')"
    by (simp add: lastRunDataOf_def)
  have f2: "failedTests (lastRunDataOf st res) =
              map (\<lambda>r. orElse (testId (test r)) []) (filter isFailureOutcome ?rs)"
    by (simp add: lastRunDataOf_def outcomesAtCreation_failed [OF assms(3,4)])
  have "map (\<lambda>f. orElse (testId_f f) []) (failures_r res)
          = map (\<lambda>r. orElse (testId (test r)) []) (filter isFailureOutcome ?rs)"
    by (simp add: r aggregate_def failureOf_testId comp_def)
  with f2 have f1: "failedTests (lastRunDataOf st res) = map (\<lambda>f. orElse (testId_f f) []) (failures_r res)"
    by simp
  have f3: "failedTests (lastRunDataOf st res) =
              map (\<lambda>r. orElse (testId (test r)) [])
                (filter (\<lambda>r. outcome (test r) = Some ''unexpected'') ?rs)"
    by (simp only: f2 outcomesAtCreation_unexpected [OF assms(4)])
  from p w s f1 f2 f3
  show "\<exists>res d. processTestResults eng (testRecords st) = Inr res
               \<and> lastRunWrites (effects st') = lastRunWrites (effects st) @ [d]
               \<and> status_l d = (if failures_r res \<noteq> [] then ''failed'' else ''passed'')
               \<and> failedTests d = map (\<lambda>f. orElse (testId_f f) []) (failures_r res)
               \<and> failedTests d =
                   map (\<lambda>r. orElse (testId (test r)) [])
                     (filter isFailureOutcome (map_values (testRecords st)))
               \<and> failedTests d =
                   map (\<lambda>r. orElse (testId (test r)) [])
                     (filter (\<lambda>r. outcome (test r) = Some ''unexpected'')
                        (map_values (testRecords st)))"
    by blast
qed

theorem lastRun_record_witness:
  "testRecords scenarioMixed \<noteq> [] \<and> attemptsNonEmpty (testRecords scenarioMixed)
   \<and> statusFromOutcome (testRecords scenarioMixed)
   \<and> outcomesAtCreation (testRecords scenarioMixed)
   \<and> pushesFit exampleEngine (testRecords scenarioMixed)
   \<and> maxFits exampleEngine (testRecords scenarioMixed)
   \<and> (\<exists>st'. onEnd exampleEngine localEnv scenarioMixed = Inr st'
          \<and> lastRunWrites (effects st') = [\<lparr>status_l = ''failed'', failedTests = [''id-1'']\<rparr>])"
proof -
  have h1: "testRecords scenarioMixed \<noteq> []" by (simp add: scenarioMixed_records)
  have inv: "attemptsNonEmpty (testRecords scenarioMixed) \<and> statusFromOutcome (testRecords scenarioMixed)"
    unfolding scenarioMixed_def by (rule runEvents_invariants)
  then have h2: "attemptsNonEmpty (testRecords scenarioMixed)"
    and h3: "statusFromOutcome (testRecords scenarioMixed)" by simp_all
  have h4: "outcomesAtCreation (testRecords scenarioMixed)"
    by (simp add: scenarioMixed_records outcomesAtCreation_def atFirstAttempt_def map_values_def)
  have h5: "pushesFit exampleEngine (testRecords scenarioMixed)"
    by (simp add: scenarioMixed_records pushesFit_def map_values_def passedDurationsOf_def
        isPassedOutcome_def exampleEngine_def)
  have h6: "maxFits exampleEngine (testRecords scenarioMixed)"
    by (simp add: scenarioMixed_records maxFits_def map_values_def passedDurationsOf_def
        isPassedOutcome_def exampleEngine_def)
  have none: "lastRunWrites (effects scenarioMixed) = []"
    unfolding scenarioMixed_def by (rule scenario_no_lastRun)
  note inst = lastRun_record [OF h1 h2 h3 h4, of exampleEngine localEnv]
  from inst h5 h6 obtain st' where e: "onEnd exampleEngine localEnv scenarioMixed = Inr st'"
    by blast
  with inst obtain res d where
    r: "processTestResults exampleEngine (testRecords scenarioMixed) = Inr res"
    and w: "lastRunWrites (effects st') = lastRunWrites (effects scenarioMixed) @ [d]"
    and s: "status_l d = (if failures_r res \<noteq> [] then ''failed'' else ''passed'')"
    and f: "failedTests d =
               map (\<lambda>r. orElse (testId (test r)) [])
                 (filter (\<lambda>r. outcome (test r) = Some ''unexpected'')
                    (map_values (testRecords scenarioMixed)))"
    by blast
  have "res = aggregate (map_values (testRecords scenarioMixed))"
    using r by (rule processTestResults_returns)
  then have "failures_r res \<noteq> []"
    by (simp add: aggregate_def scenarioMixed_records map_values_def isFailureOutcome_def
        isPassedOutcome_def isSkippedOutcome_def)
  with s have s': "status_l d = ''failed''" by simp
  from f have f': "failedTests d = [''id-1'']"
    by (simp add: scenarioMixed_records map_values_def orElse_def)
  have "d = \<lparr>status_l = ''failed'', failedTests = [''id-1'']\<rparr>"
    using s' f' by (cases d) simp
  with w none have "lastRunWrites (effects st') = [\<lparr>status_l = ''failed'', failedTests = [''id-1'']\<rparr>]"
    by simp
  with h1 h2 h3 h4 h5 h6 e show ?thesis by blast
qed

end
